theory Spec2Isabelle
  imports Complex_Main
begin

section \<open>Double-precision arithmetic\<close>

text \<open>
  A JavaScript number is an IEEE 754 double. A finite double is modelled by the real
  number it denotes, and an arithmetic operation by the exact operation followed by
  rounding to the nearest number with a significand of 53 bits, ties going to the even
  significand. The exponent range is not bounded: overflow to \<open>Infinity\<close> (beyond about
  \<open>1.8e308\<close>) and the coarser spacing of the subnormal numbers are not modelled.
\<close>

definition roundEven :: "real \<Rightarrow> int" where
  "roundEven y =
     (let f = \<lfloor>y\<rfloor> in
      if y - of_int f < 1 / 2 then f
      else if y - of_int f > 1 / 2 then f + 1
      else if even f then f else f + 1)"

text \<open>The exponent \<open>e\<close> with \<open>2 ^ e \<le> |x| < 2 ^ (e + 1)\<close>, for \<open>x \<noteq> 0\<close>.\<close>

definition binade :: "real \<Rightarrow> int" where
  "binade x = \<lfloor>log 2 \<bar>x\<bar>\<rfloor>"

definition fl :: "real \<Rightarrow> real" where
  "fl x =
     (if x = 0 then 0
      else let e = binade x - 52 in of_int (roundEven (x / 2 powi e)) * 2 powi e)"

text \<open>The operators \<open>+\<close> and \<open>/\<close> on numbers.\<close>

definition dadd :: "real \<Rightarrow> real \<Rightarrow> real" where
  "dadd x y = fl (x + y)"

definition ddiv :: "real \<Rightarrow> real \<Rightarrow> real" where
  "ddiv x y = fl (x / y)"


fun sumInOrder :: "real list \<Rightarrow> real" where
  "sumInOrder [] = 0"
| "sumInOrder (x # xs) = foldl dadd x xs"




section \<open>Cost aggregation: prepareTotalRow, prepareDetails, combinedData\<close>

text \<open>
  A usage record is a flat JavaScript object. The fields read by name are record fields
  here; \<open>labels\<close> is the property lookup \<open>curr[key]\<close> for the label-like properties
  (\<open>ar-guid\<close>, \<open>wdl-task-name\<close>, ...), with \<open>None\<close> for \<open>undefined\<close>; the label values
  are strings, compared by \<open>===\<close>.
  A cost is a double, held as the real number it denotes, and costs are added with
  \<open>dadd\<close>. The two time fields hold the time value (milliseconds) that
  \<open>new Date(...).getTime()\<close> yields for the record's timestamps, which are valid dates.
  \<open>sku_description\<close> is \<open>sku.description\<close>: every record carries an \<open>sku\<close> object.
\<close>

record usage_record =
  cost :: real
  topic :: "string option"
  usage_start_time :: int
  usage_end_time :: int
  creator :: "string option"
  sku_description :: "string option"
  labels :: "string \<Rightarrow> string option"

record total_row =
  t_type :: string
  t_key :: string
  t_ar_guid :: "string option"
  t_compute_category :: "string option"
  t_topic :: "string option"
  t_cost :: real
  t_start_time :: int
  t_end_time :: int
  t_wdl_task_name :: "string option"
  t_cromwell_sub :: "string option"
  t_seq_group_id :: "string option"
  t_goog_pipelines_worker :: "string option"
  t_cromwell_id :: "string option"
  t_creator :: "string option"
  t_dataproc_autozone :: "string option"
  t_dataproc_name :: "string option"
  t_dataproc_uuid :: "string option"
  t_dataproc_location :: "string option"

record detail_row =
  d_type :: string
  d_key :: string
  d_ar_guid :: "string option"
  d_cromwell_id :: "string option"
  d_topic :: "string option"
  d_cost :: real
  d_wdl_task_name :: "string option"
  d_cromwell_sub :: "string option"
  d_seq_group_id :: "string option"
  d_batch_resource :: "string option"


text \<open>\<open>Array.prototype.findIndex\<close>; \<open>None\<close> stands for the result \<open>-1\<close>.\<close>

fun findIndex :: "('a \<Rightarrow> bool) \<Rightarrow> 'a list \<Rightarrow> nat option" where
  "findIndex P [] = None"
| "findIndex P (x # xs) = (if P x then Some 0 else map_option Suc (findIndex P xs))"

text \<open>
  The object \<open>rec\<close> that \<open>prepareTotalRow\<close> pushes for the first record of a group.
  \<open>setFieldValue\<close> stores a field only when its value is defined, which for an optional
  field is the assignment of the option.
\<close>

definition newTotalRec :: "string \<Rightarrow> string \<Rightarrow> usage_record \<Rightarrow> total_row" where
  "newTotalRec key k cur =
     \<lparr> t_type = key, t_key = k,
       t_ar_guid = labels cur ''ar-guid'',
       t_compute_category = labels cur ''compute-category'',
       t_topic = topic cur,
       t_cost = cost cur,
       t_start_time = usage_start_time cur,
       t_end_time = usage_end_time cur,
       t_wdl_task_name = (if key = ''wdl-task-name'' then Some k else None),
       t_cromwell_sub = (if key = ''cromwell-sub-workflow-name'' then Some k else None),
       t_seq_group_id = (if key = ''seq_group_id'' then Some k else None),
       t_goog_pipelines_worker = labels cur ''goog-pipelines-worker'',
       t_cromwell_id = labels cur ''cromwell-workflow-id'',
       t_creator = creator cur,
       t_dataproc_autozone = labels cur ''goog-dataproc-autozone'',
       t_dataproc_name = labels cur ''goog-dataproc-cluster-name'',
       t_dataproc_uuid = labels cur ''goog-dataproc-cluster-uuid'',
       t_dataproc_location = labels cur ''goog-dataproc-location'' \<rparr>"

text \<open>
  The three assignments of the \<open>else\<close> branch of \<open>prepareTotalRow\<close>, applied to the
  matching row \<open>aggData[idx]\<close>.
\<close>

definition mergeTotal :: "usage_record \<Rightarrow> total_row \<Rightarrow> total_row" where
  "mergeTotal cur d =
     d\<lparr> t_cost := dadd (t_cost d) (cost cur),
        t_start_time := min (usage_start_time cur) (t_start_time d),
        t_end_time := max (usage_end_time cur) (t_end_time d) \<rparr>"

text \<open>
  The body of the \<open>forEach\<close> callback of \<open>prepareTotalRow\<close>: the accumulator
  \<open>aggData\<close> is passed in and returned.
\<close>

definition totalStep :: "string \<Rightarrow> total_row list \<Rightarrow> usage_record \<Rightarrow> total_row list" where
  "totalStep key aggData cur =
     (let idx = findIndex (\<lambda>d. Some (t_key d) = labels cur key) aggData in
      case labels cur key of
        None \<Rightarrow> aggData
      | Some k \<Rightarrow>
          if cost cur \<ge> 0 then
            (case idx of
               None \<Rightarrow> aggData @ [newTotalRec key k cur]
             | Some i \<Rightarrow> aggData[i := mergeTotal cur (aggData ! i)])
          else aggData)"

definition prepareTotalRow :: "usage_record list \<Rightarrow> string \<Rightarrow> total_row list" where
  "prepareTotalRow data key = foldl (totalStep key) [] data"

text \<open>The object that \<open>prepareDetails\<close> pushes for the first record of a group and resource.\<close>

definition newDetailRec :: "string \<Rightarrow> string \<Rightarrow> usage_record \<Rightarrow> detail_row" where
  "newDetailRec key k cur =
     \<lparr> d_type = key, d_key = k,
       d_ar_guid = labels cur ''ar-guid'',
       d_cromwell_id = labels cur ''cromwell-workflow-id'',
       d_topic = topic cur,
       d_cost = cost cur,
       d_wdl_task_name = (if key = ''wdl-task-name'' then Some k else None),
       d_cromwell_sub = (if key = ''cromwell-sub-workflow-name'' then Some k else None),
       d_seq_group_id = (if key = ''seq_group_id'' then Some k else None),
       d_batch_resource = sku_description cur \<rparr>"

text \<open>The assignment \<open>aggData[idx].cost += cost\<close> of \<open>prepareDetails\<close>.\<close>

definition mergeDetail :: "usage_record \<Rightarrow> detail_row \<Rightarrow> detail_row" where
  "mergeDetail cur d = d\<lparr> d_cost := dadd (d_cost d) (cost cur) \<rparr>"

text \<open>The body of the \<open>forEach\<close> callback of \<open>prepareDetails\<close>.\<close>

definition detailStep :: "string \<Rightarrow> detail_row list \<Rightarrow> usage_record \<Rightarrow> detail_row list" where
  "detailStep key aggData cur =
     (let idx = findIndex (\<lambda>d. Some (d_key d) = labels cur key \<and>
                               d_batch_resource d = sku_description cur) aggData in
      case labels cur key of
        None \<Rightarrow> aggData
      | Some k \<Rightarrow>
          if cost cur \<ge> 0 then
            (case idx of
               None \<Rightarrow> aggData @ [newDetailRec key k cur]
             | Some i \<Rightarrow> aggData[i := mergeDetail cur (aggData ! i)])
          else aggData)"

definition prepareDetails :: "usage_record list \<Rightarrow> string \<Rightarrow> detail_row list" where
  "prepareDetails data key = foldl (detailStep key) [] data"


text \<open>
  The records that the guard \<open>curr[key] !== undefined && cost >= 0\<close> lets through, and
  those of them that belong to the group of key value \<open>k\<close>.
\<close>

definition kept :: "string \<Rightarrow> usage_record \<Rightarrow> bool" where
  "kept key r = (labels r key \<noteq> None \<and> cost r \<ge> 0)"

definition in_group :: "string \<Rightarrow> string \<Rightarrow> usage_record \<Rightarrow> bool" where
  "in_group key k r = (labels r key = Some k \<and> cost r \<ge> 0)"


text \<open>
  The records whose costs are added without rounding: every cost that is not negative is
  a whole number, and these costs add up to at most \<open>2 ^ 53\<close>.
\<close>

definition wholeCosts :: "usage_record list \<Rightarrow> bool" where
  "wholeCosts data =
     ((\<forall>r\<in>set data. 0 \<le> cost r \<longrightarrow> cost r \<in> \<nat>) \<and>
      sum_list (map cost (filter (\<lambda>r. 0 \<le> cost r) data)) \<le> 2 ^ 53)"

text \<open>
  Small billing extracts used to exercise the theorems. \<open>sampleUsage\<close>: two charges of
  one analysis run on different resources, a credit, and a charge that carries no
  \<open>ar-guid\<close>. \<open>wholeUsage\<close>: the two charges alone. \<open>groupedUsage\<close>: charges of 0.1, 0.1
  and 0.4 for the runs a, b and a. \<open>resourceUsage\<close>: charges of 0.1, 0.1 and 1.1 of one
  run for cpu, disk and cpu.
\<close>

definition usage :: "real \<Rightarrow> int \<Rightarrow> int \<Rightarrow> string \<Rightarrow> (string \<Rightarrow> string option) \<Rightarrow> usage_record" where
  "usage c s e sku ls =
     \<lparr> cost = c, topic = Some ''hail'', usage_start_time = s, usage_end_time = e,
       creator = None, sku_description = Some sku, labels = ls \<rparr>"

definition sampleUsage :: "usage_record list" where
  "sampleUsage =
     [usage 2 100 200 ''cpu'' [''ar-guid'' \<mapsto> ''run1''],
      usage (-1) 50 60 ''cpu'' [''ar-guid'' \<mapsto> ''run1''],
      usage 3 80 150 ''disk'' [''ar-guid'' \<mapsto> ''run1''],
      usage 5 10 500 ''cpu'' Map.empty]"




section \<open>Grid layout: the participant grid of ProjectGrid\<close>

text \<open>
  The participant tree of the grid response. An optional list is \<open>None\<close> where the
  property is missing (\<open>undefined\<close> or \<open>null\<close>). Of a sequencing group and an assay only
  the fields that the layout reads are kept: the identifiers that go into the row key and
  the child lists. The other fields are only handed to the cell renderer.
\<close>

record assay =
  a_id :: "int option"

record sequencing_group =
  sg_id :: "string option"
  assays :: "assay list option"

record sample =
  s_id :: string
  sequencing_groups :: "sequencing_group list option"

record participant =
  p_external_id :: string
  samples :: "sample list"

text \<open>
  A rendered table row. Each of the three ancestor cell groups is \<open>None\<close> when the row
  does not emit it, and \<open>Some span\<close> when it does, where \<open>span\<close> is the \<open>rowSpan\<close>
  attribute (\<open>None\<close> for \<open>undefined\<close>). The assay cells are emitted on every row.
\<close>

record grid_row =
  backgroundColor :: string
  participant_cells :: "nat option option"
  sample_cells :: "nat option option"
  sequencing_group_cells :: "nat option option"
  row_sg :: sequencing_group
  row_assay :: assay

text \<open>The nullish default \<open>xs ?? []\<close>.\<close>

definition orEmpty :: "'a list option \<Rightarrow> 'a list" where
  "orEmpty xs = (case xs of None \<Rightarrow> [] | Some ys \<Rightarrow> ys)"

text \<open>\<open>.reduce((a, b) => a + b, 0)\<close>\<close>

definition reduceAdd :: "nat list \<Rightarrow> nat" where
  "reduceAdd xs = foldl (\<lambda>a b. a + b) 0 xs"

definition lengthOfSamples :: "sample \<Rightarrow> nat" where
  "lengthOfSamples s =
     reduceAdd (map (\<lambda>a'. length (orEmpty (assays a'))) (orEmpty (sequencing_groups s)))"

definition lengthOfParticipant :: "participant \<Rightarrow> nat" where
  "lengthOfParticipant p =
     reduceAdd (map (\<lambda>s'. max 1
        (reduceAdd (map (\<lambda>a'. length (orEmpty (assays a'))) (orEmpty (sequencing_groups s')))))
        (samples p))"

definition participantRowSpan :: "participant \<Rightarrow> nat option" where
  "participantRowSpan p =
     (if lengthOfParticipant p > 0 then Some (lengthOfParticipant p) else None)"

definition samplesRowSpan :: "sample \<Rightarrow> nat option" where
  "samplesRowSpan s = (if lengthOfSamples s > 0 then Some (lengthOfSamples s) else None)"

text \<open>
  The list \<open>sgs\<close>: the sample's sequencing groups, or the single empty object \<open>{}\<close> when
  the list is missing or empty.
\<close>

definition emptyGroup :: sequencing_group where
  "emptyGroup = \<lparr> sg_id = None, assays = None \<rparr>"

definition sgs :: "sample \<Rightarrow> sequencing_group list" where
  "sgs s = (let gs = orEmpty (sequencing_groups s) in if gs = [] then [emptyGroup] else gs)"

text \<open>
  The assays that a sequencing group is rendered with:
  \<open>(!!sg?.assays) ? sg.assays : [{ id: 0 }]\<close>. Every array is truthy in JavaScript, the
  empty one too, so only a missing list is replaced by the placeholder.
\<close>

definition placeholderAssay :: assay where
  "placeholderAssay = \<lparr> a_id = Some 0 \<rparr>"

definition rowAssays :: "sequencing_group \<Rightarrow> assay list" where
  "rowAssays sg = (case assays sg of None \<Rightarrow> [placeholderAssay] | Some as \<Rightarrow> as)"

text \<open>
  The same expression in the second copy of the component that the sources hold:
  \<open>sg.assays?.length > 0 ? sg.assays : [{}]\<close>.
\<close>

definition rowAssaysByLength :: "sequencing_group \<Rightarrow> assay list" where
  "rowAssaysByLength sg =
     (case assays sg of
        None \<Rightarrow> [\<lparr> a_id = None \<rparr>]
      | Some as \<Rightarrow> if length as > 0 then as else [\<lparr> a_id = None \<rparr>])"

text \<open>The rows of one sample, of one participant and of the whole table body.\<close>

definition sampleRows :: "string \<Rightarrow> participant \<Rightarrow> nat \<Rightarrow> sample \<Rightarrow> grid_row list" where
  "sampleRows bg p sidx s =
     concat (map (\<lambda>(sgidx, sg).
       map (\<lambda>(assayidx, assay).
         (let isFirstOfGroup = (sidx = 0 \<and> sgidx = 0 \<and> assayidx = 0) in
          \<lparr> backgroundColor = bg,
            participant_cells = (if isFirstOfGroup then Some (participantRowSpan p) else None),
            sample_cells =
              (if sgidx = 0 \<and> assayidx = 0 then Some (samplesRowSpan s) else None),
            sequencing_group_cells =
              (if assayidx = 0
               then Some (if length (orEmpty (assays sg)) > 0
                          then Some (length (orEmpty (assays sg))) else None)
               else None),
            row_sg = sg,
            row_assay = assay \<rparr>))
         (enumerate 0 (rowAssays sg)))
       (enumerate 0 (sgs s)))"

definition participantRows :: "nat \<Rightarrow> participant \<Rightarrow> grid_row list" where
  "participantRows pidx p =
     concat (map (\<lambda>(sidx, s).
       sampleRows (if pidx mod 2 = 0 then ''var(--color-bg)'' else ''var(--color-bg-disabled)'')
         p sidx s)
       (enumerate 0 (samples p)))"

definition gridRows :: "participant list \<Rightarrow> grid_row list" where
  "gridRows participants =
     concat (map (\<lambda>(pidx, p). participantRows pidx p) (enumerate 0 participants))"

text \<open>
  Example trees: a participant with two samples of one sequencing group each, the first
  with three assays and the second with an assay list that is present and empty; and the
  same participant with the second group's assay list missing.
\<close>

definition threeAssays :: sequencing_group where
  "threeAssays =
     \<lparr> sg_id = Some ''CPG1'',
       assays = Some [\<lparr> a_id = Some 1 \<rparr>, \<lparr> a_id = Some 2 \<rparr>, \<lparr> a_id = Some 3 \<rparr>] \<rparr>"

definition noAssays :: sequencing_group where
  "noAssays = \<lparr> sg_id = Some ''CPG2'', assays = Some [] \<rparr>"

definition missingAssays :: sequencing_group where
  "missingAssays = \<lparr> sg_id = Some ''CPG2'', assays = None \<rparr>"

definition sampleA :: sample where
  "sampleA = \<lparr> s_id = ''XPG1'', sequencing_groups = Some [threeAssays] \<rparr>"

definition sampleB :: sample where
  "sampleB = \<lparr> s_id = ''XPG2'', sequencing_groups = Some [noAssays] \<rparr>"

definition sampleC :: sample where
  "sampleC = \<lparr> s_id = ''XPG2'', sequencing_groups = Some [missingAssays] \<rparr>"

definition participantAB :: participant where
  "participantAB = \<lparr> p_external_id = ''P1'', samples = [sampleA, sampleB] \<rparr>"

definition participantAC :: participant where
  "participantAC = \<lparr> p_external_id = ''P1'', samples = [sampleA, sampleC] \<rparr>"

section \<open>Value formatting: formatBytes, safeValue, external ids\<close>

subsection \<open>Numbers\<close>

text \<open>
  A value of type number: \<open>NaN\<close>, the two infinities, or a finite double, given by the
  real number it denotes (the two zeros are not told apart: both are falsy and print as
  \<open>0\<close>).
\<close>

datatype jsnumber = NaN | PosInfinity | NegInfinity | Finite real

text \<open>Truthiness of a number: \<open>!n\<close> holds for 0 and \<open>NaN\<close>.\<close>

definition truthyNumber :: "jsnumber \<Rightarrow> bool" where
  "truthyNumber n = (n \<noteq> NaN \<and> n \<noteq> Finite 0)"

text \<open>
  Two functions of the engine are parameters of the functions below.

  \<^item> \<open>Math.log\<close> on a positive finite number returns an approximation of the natural
    logarithm that the engine chooses; it is \<open>mathLog\<close>, from the real number that the
    argument denotes to the real number that the result denotes. \<open>roundedLn\<close>, the
    logarithm rounded to the nearest double, is one such function.

  \<^item> \<open>Number.prototype.toString\<close> prints the shortest decimal digits that read back as the
    same double, in exponent notation from \<open>1e21\<close>; it is \<open>numberToString\<close>.
    \<open>integerToString\<close> is that function on \<open>NaN\<close>, the infinities and the integers up to
    \<open>2 ^ 53\<close> in magnitude, where the digits are the integer's own; it stands for the
    parameter in examples that print such numbers only.
\<close>

definition roundedLn :: "real \<Rightarrow> real" where
  "roundedLn x = fl (ln x)"

definition digit :: "nat \<Rightarrow> char" where
  "digit d = ''0123456789'' ! d"

fun showNat :: "nat \<Rightarrow> string" where
  "showNat n = (if n < 10 then [digit n] else showNat (n div 10) @ [digit (n mod 10)])"

declare showNat.simps [simp del]

text \<open>Reading a string of decimal digits.\<close>

definition digitValue :: "char \<Rightarrow> nat" where
  "digitValue c = of_char c - 48"

definition readNat :: "string \<Rightarrow> nat" where
  "readNat s = foldl (\<lambda>a c. 10 * a + digitValue c) 0 s"

definition integerToString :: "jsnumber \<Rightarrow> string" where
  "integerToString n =
     (case n of
        NaN \<Rightarrow> ''NaN''
      | PosInfinity \<Rightarrow> ''Infinity''
      | NegInfinity \<Rightarrow> ''-Infinity''
      | Finite x \<Rightarrow> (if x < 0 then ''-'' @ showNat (nat \<lfloor>- x\<rfloor>) else showNat (nat \<lfloor>x\<rfloor>)))"

text \<open>
  \<open>x.toFixed(dm)\<close> picks the integer \<open>n\<close> for which \<open>n / 10 ^ dm\<close> is closest to \<open>x\<close>, the
  larger one of two, and prints it with \<open>dm\<close> decimals; \<open>parseFloat\<close> reads that number
  back and the template literal prints it in the shortest form, without trailing zeros.
  \<open>toFixedUnits\<close> is the integer \<open>n\<close> (for \<open>x \<ge> 0\<close>) and \<open>decimalString\<close> the printed form
  of \<open>n / 10 ^ dm\<close>. A decimal number of at most 15 digits is the shortest one that reads
  back as its double, so this is what is printed for \<open>n < 10 ^ 15\<close>.
\<close>

definition toFixedUnits :: "real \<Rightarrow> nat \<Rightarrow> nat" where
  "toFixedUnits x dm = nat \<lfloor>x * 10 ^ dm + 1 / 2\<rfloor>"

definition stripTrailingZeros :: "string \<Rightarrow> string" where
  "stripTrailingZeros s = rev (dropWhile (\<lambda>c. c = CHR ''0'') (rev s))"

definition decimalString :: "nat \<Rightarrow> nat \<Rightarrow> string" where
  "decimalString n dm =
     (let whole = showNat (n div 10 ^ dm);
          digits = showNat (n mod 10 ^ dm);
          fraction = stripTrailingZeros (replicate (dm - length digits) CHR ''0'' @ digits)
      in if fraction = [] then whole else whole @ ''.'' @ fraction)"

subsection \<open>formatBytes\<close>

text \<open>
  \<open>formatBytes\<close> is a local function of \<open>SeqInfo_\<close>; each of its calls passes the size
  alone, so \<open>decimals\<close> is its default value. An index outside the table \<open>sizes\<close> reads
  \<open>undefined\<close>, printed as such by the template literal.
\<close>

definition decimals :: int where
  "decimals = 2"

definition sizes :: "string list" where
  "sizes = [''Bytes'', ''KB'', ''MB'', ''GB'', ''TB'', ''PB'', ''EB'', ''ZB'', ''YB'']"

definition unitName :: "int \<Rightarrow> string" where
  "unitName i = (if 0 \<le> i \<and> nat i < length sizes then sizes ! nat i else ''undefined'')"

text \<open>
  \<open>Math.floor(Math.log(bytes) / Math.log(k))\<close> with \<open>k = 1024\<close>, for a finite \<open>bytes > 0\<close>:
  two calls of \<open>Math.log\<close>, a division of doubles and the floor of the quotient.
\<close>

definition unitIndex :: "(real \<Rightarrow> real) \<Rightarrow> real \<Rightarrow> int" where
  "unitIndex mathLog bytes = \<lfloor>ddiv (mathLog bytes) (mathLog 1024)\<rfloor>"

text \<open>
  The size is falsy for 0 and \<open>NaN\<close>. For a negative size, \<open>- Infinity\<close> included,
  \<open>Math.log\<close> is \<open>NaN\<close>, and so are the index and the quotient: the result is the text
  \<open>NaN undefined\<close>. For \<open>Infinity\<close> the logarithm is \<open>Infinity\<close>, and the index is
  \<open>Infinity\<close> or, should \<open>Math.log(1024)\<close> be negative, \<open>- Infinity\<close>; the quotient is
  \<open>Infinity / Infinity\<close> or \<open>Infinity / 0\<close>.

  For a positive finite size, \<open>k ** i\<close> is the power of two \<open>1024 ^ i\<close>, a double for
  \<open>i\<close> from -100 to 100. The result is \<open>None\<close> where the model does not follow the code:
  for a \<open>Math.log(1024)\<close> of 0 (a division by zero), for an index beyond 100 in
  magnitude, and for a rounded quotient of more than 15 digits.
\<close>

definition formatBytes :: "(real \<Rightarrow> real) \<Rightarrow> jsnumber \<Rightarrow> string option" where
  "formatBytes mathLog bytes =
     (if \<not> truthyNumber bytes then Some ''0 Bytes''
      else case bytes of
        Finite b \<Rightarrow>
          if b < 0 then Some ''NaN undefined''
          else
            let k = 1024;
                dm = (if decimals < 0 then 0 else nat decimals);
                i = unitIndex mathLog b;
                n = toFixedUnits (ddiv b (k powi i)) dm
            in if mathLog k \<noteq> 0 \<and> - 100 \<le> i \<and> i \<le> 100 \<and> n < 10 ^ 15
               then Some (decimalString n dm @ '' '' @ unitName i)
               else None
      | PosInfinity \<Rightarrow>
          Some (if mathLog 1024 < 0 then ''Infinity undefined'' else ''NaN undefined'')
      | _ \<Rightarrow> Some ''NaN undefined'')"

subsection \<open>Metadata values\<close>

text \<open>
  The values that \<open>safeValue\<close> receives are parsed JSON: \<open>null\<close>, booleans, numbers,
  strings, arrays and objects. An object is the list of its entries in property order.
\<close>

datatype json =
    JNull
  | JBool bool
  | JNum jsnumber
  | JStr string
  | JArr "json list"
  | JObj "(string \<times> json) list"

text \<open>Truthiness (\<open>!!value\<close>); a missing property reads \<open>undefined\<close>, which is falsy.\<close>

fun truthy :: "json \<Rightarrow> bool" where
  "truthy JNull = False"
| "truthy (JBool b) = b"
| "truthy (JNum n) = truthyNumber n"
| "truthy (JStr s) = (s \<noteq> [])"
| "truthy (JArr xs) = True"
| "truthy (JObj fs) = True"

definition truthyProperty :: "json option \<Rightarrow> bool" where
  "truthyProperty v = (case v of None \<Rightarrow> False | Some x \<Rightarrow> truthy x)"

text \<open>\<open>Array.prototype.join\<close> on strings.\<close>

fun joinWith :: "string \<Rightarrow> string list \<Rightarrow> string" where
  "joinWith sep [] = []"
| "joinWith sep [x] = x"
| "joinWith sep (x # y # ys) = x @ sep @ joinWith sep (y # ys)"

text \<open>
  The conversion of a value to a string, as a template literal or \<open>join\<close> applies it.
  \<open>join\<close> prints \<open>null\<close> as the empty string.
\<close>

fun toString :: "(jsnumber \<Rightarrow> string) \<Rightarrow> json \<Rightarrow> string" where
  "toString numberToString JNull = ''null''"
| "toString numberToString (JBool b) = (if b then ''true'' else ''false'')"
| "toString numberToString (JNum n) = numberToString n"
| "toString numberToString (JStr s) = s"
| "toString numberToString (JArr xs) =
     joinWith '','' (map (\<lambda>x. if x = JNull then [] else toString numberToString x) xs)"
| "toString numberToString (JObj fs) = ''[object Object]''"

definition joinValues :: "(jsnumber \<Rightarrow> string) \<Rightarrow> string \<Rightarrow> json list \<Rightarrow> string" where
  "joinValues numberToString sep xs =
     joinWith sep (map (\<lambda>x. if x = JNull then [] else toString numberToString x) xs)"

text \<open>
  \<open>JSON.stringify\<close>: a string is quoted, with the quote, the backslash and the control
  characters escaped; a number that is not finite is printed as \<open>null\<close>.
\<close>

definition hexDigit :: "nat \<Rightarrow> char" where
  "hexDigit d = ''0123456789abcdef'' ! d"

definition escapeChar :: "char \<Rightarrow> string" where
  "escapeChar c =
     (if c = CHR 0x22 then [CHR 0x5C, CHR 0x22]
      else if c = CHR 0x5C then [CHR 0x5C, CHR 0x5C]
      else if c = CHR 0x08 then [CHR 0x5C, CHR ''b'']
      else if c = CHR 0x0C then [CHR 0x5C, CHR ''f'']
      else if c = CHR 0x0A then [CHR 0x5C, CHR ''n'']
      else if c = CHR 0x0D then [CHR 0x5C, CHR ''r'']
      else if c = CHR 0x09 then [CHR 0x5C, CHR ''t'']
      else if (of_char c :: nat) < 32
        then [CHR 0x5C, CHR ''u'', CHR ''0'', CHR ''0'',
              hexDigit (of_char c div 16), hexDigit (of_char c mod 16)]
      else [c])"

definition quote :: "string \<Rightarrow> string" where
  "quote s = [CHR 0x22] @ concat (map escapeChar s) @ [CHR 0x22]"

definition stringifyNumber :: "(jsnumber \<Rightarrow> string) \<Rightarrow> jsnumber \<Rightarrow> string" where
  "stringifyNumber numberToString n =
     (case n of Finite x \<Rightarrow> numberToString n | _ \<Rightarrow> ''null'')"

fun stringify :: "(jsnumber \<Rightarrow> string) \<Rightarrow> json \<Rightarrow> string" where
  "stringify numberToString JNull = ''null''"
| "stringify numberToString (JBool b) = (if b then ''true'' else ''false'')"
| "stringify numberToString (JNum n) = stringifyNumber numberToString n"
| "stringify numberToString (JStr s) = quote s"
| "stringify numberToString (JArr xs) =
     ''['' @ joinWith '','' (map (stringify numberToString) xs) @ '']''"
| "stringify numberToString (JObj fs) =
     ''{'' @ joinWith '',''
              (map (\<lambda>(k, v). quote k @ '':'' @ stringify numberToString v) fs) @ ''}''"

subsection \<open>safeValue\<close>

text \<open>
  The result is the value itself when it is falsy, and a string otherwise. \<open>formatBytes\<close>
  expects a number: for a \<open>size\<close> that is truthy and not a number JavaScript would
  coerce it, which the model does not follow; there the result is \<open>None\<close>, as it is
  where \<open>formatBytes\<close> is not followed.
\<close>

fun safeValue :: "(real \<Rightarrow> real) \<Rightarrow> (jsnumber \<Rightarrow> string) \<Rightarrow> json \<Rightarrow> json option" where
  "safeValue mathLog numberToString value =
     (if \<not> truthy value then Some value
      else case value of
        JArr xs \<Rightarrow>
          map_option (\<lambda>ys. JStr (joinValues numberToString '', '' ys))
            (those (map (safeValue mathLog numberToString) xs))
      | JNum n \<Rightarrow> Some (JStr (numberToString n))
      | JStr s \<Rightarrow> Some (JStr s)
      | JObj fs \<Rightarrow>
          (if truthyProperty (map_of fs ''location'') \<and> truthyProperty (map_of fs ''size'')
           then (case (map_of fs ''location'', map_of fs ''size'') of
                   (Some location, Some (JNum bytes)) \<Rightarrow>
                     map_option
                       (\<lambda>formatted.
                          JStr (toString numberToString location @ '' ('' @ formatted @ '')''))
                       (formatBytes mathLog bytes)
                 | _ \<Rightarrow> None)
           else Some (JStr (stringify numberToString value)))
      | _ \<Rightarrow> Some (JStr (stringify numberToString value)))"

declare safeValue.simps [simp del]

subsection \<open>External ids\<close>

text \<open>
  The cell that \<open>renderSeqInfo\<close> shows for the key \<open>externalIds\<close>: \<open>None\<close> is the empty
  fragment that is returned for a missing or empty map. An external-id map is the list
  of its entries \<open>(code, id)\<close> in property order.
\<close>

definition renderExternalIds :: "(string \<times> string) list option \<Rightarrow> string option" where
  "renderExternalIds externalIds =
     (if length (orEmpty externalIds) \<noteq> 0
      then Some (joinWith '', '' (map (\<lambda>(k1, v1). v1 @ '' ('' @ k1 @ '')'')
                                    (orEmpty externalIds)))
      else None)"

text \<open>
  \<open>formatExternalIds\<close> of the participant grid. \<open>sanitiseValue\<close> is imported from a
  module that is not among the sources and is a parameter here.
\<close>

definition formatExternalIds :: "(string \<Rightarrow> string) \<Rightarrow> (string \<times> string) list \<Rightarrow> string" where
  "formatExternalIds sanitiseValue ids =
     joinWith '', '' (map (\<lambda>(k, v). if length k = 0 then sanitiseValue v else k @ '': '' @ v) ids)"

text \<open>
  The format as the specification words it, for comparison with the two functions:
  \<open><id> (<code>)\<close> pairs joined by a comma and a space, the parenthetical left out for an
  empty code.
\<close>

definition specExternalIds :: "(string \<times> string) list \<Rightarrow> string" where
  "specExternalIds ids =
     joinWith '', '' (map (\<lambda>(code, ident). if code = [] then ident
                                            else ident @ '' ('' @ code @ '')'') ids)"

section \<open>Properties of the double-precision arithmetic\<close>

subsection \<open>Rounding\<close>

lemma pow2_powr: "2 powr real_of_int e = (2::real) powi e"
  by (rule powr_real_of_int') simp_all

lemma pow2_powr_Suc: "2 powr (real_of_int e + 1) = (2::real) powi (e + 1)"
  using pow2_powr[of "e + 1"] by simp

lemma pow2_pos: "0 < (2::real) powi e"
  by simp

lemma pow2_less_iff: "(2::real) powi a < 2 powi b \<longleftrightarrow> a < b"
proof
  assume l: "(2::real) powi a < 2 powi b"
  show "a < b"
  proof (rule ccontr)
    assume "\<not> a < b"
    then have "b \<le> a" by simp
    then have "(2::real) powi b \<le> 2 powi a" by (intro power_int_increasing) simp_all
    with l show False by simp
  qed
next
  assume "a < b"
  then show "(2::real) powi a < 2 powi b" by (intro power_int_strict_increasing) simp_all
qed

lemma pow2_le_iff: "(2::real) powi a \<le> 2 powi b \<longleftrightarrow> a \<le> b"
  using pow2_less_iff[of b a] by (simp only: not_less[symmetric])

lemma nats_nonneg: "x \<in> \<nat> \<Longrightarrow> (0::real) \<le> x"
  by (auto elim: Nats_cases)

lemma binade_eq:
  assumes "2 powi e \<le> \<bar>x\<bar>" and "\<bar>x\<bar> < 2 powi (e + 1)"
  shows "binade x = e"
proof -
  have pos: "0 < \<bar>x\<bar>" using assms(1) pow2_pos[of e] by linarith
  have "2 powr real_of_int e \<le> \<bar>x\<bar> \<and> \<bar>x\<bar> < 2 powr (real_of_int e + 1)"
    using assms by (simp only: pow2_powr pow2_powr_Suc)
  then have "\<lfloor>log 2 \<bar>x\<bar>\<rfloor> = e"
    using floor_log_eq_powr_iff[of "\<bar>x\<bar>" 2 e] pos by simp
  then show ?thesis by (simp only: binade_def)
qed

lemma binade_bounds:
  assumes "x \<noteq> 0"
  shows "2 powi binade x \<le> \<bar>x\<bar> \<and> \<bar>x\<bar> < 2 powi (binade x + 1)"
proof -
  have pos: "0 < \<bar>x\<bar>" using assms by simp
  have "\<lfloor>log 2 \<bar>x\<bar>\<rfloor> = binade x" by (simp only: binade_def)
  then have "2 powr real_of_int (binade x) \<le> \<bar>x\<bar> \<and>
             \<bar>x\<bar> < 2 powr (real_of_int (binade x) + 1)"
    using floor_log_eq_powr_iff[of "\<bar>x\<bar>" 2 "binade x"] pos by simp
  then show ?thesis by (simp only: pow2_powr pow2_powr_Suc)
qed


lemma roundEven_of_int [simp]: "roundEven (of_int m) = m"
  by (simp add: roundEven_def)

lemma roundEven_close: "\<bar>of_int (roundEven y) - y\<bar> \<le> 1 / 2"
proof -
  have "of_int \<lfloor>y\<rfloor> \<le> y" "y < of_int \<lfloor>y\<rfloor> + 1" by linarith+
  then show ?thesis by (auto simp: roundEven_def Let_def)
qed

lemma fl_0 [simp]: "fl 0 = 0"
  by (simp add: fl_def)

lemma fl_of_int:
  assumes "\<bar>m\<bar> \<le> 2 ^ 53"
  shows "fl (of_int m) = of_int m"
proof (cases "m = 0")
  case True
  then show ?thesis by simp
next
  case False
  let ?x = "real_of_int m"
  let ?e = "binade ?x"
  have x0: "?x \<noteq> 0" using False by simp
  note b = binade_bounds[OF x0]
  have "1 \<le> \<bar>?x\<bar>" using False by (simp flip: of_int_abs)
  with b have "1 < (2::real) powi (?e + 1)" by linarith
  then have "(2::real) powi 0 < 2 powi (?e + 1)" by simp
  then have e0: "0 \<le> ?e" by (simp only: pow2_less_iff)
  have "real_of_int \<bar>m\<bar> \<le> real_of_int (2 ^ 53)"
    using assms by (simp only: of_int_le_iff)
  then have x53: "\<bar>?x\<bar> \<le> 2 ^ 53" by simp
  with b have "(2::real) powi ?e \<le> 2 powi 53" by simp
  then have e53: "?e \<le> 53" by (simp only: pow2_le_iff)
  have "\<exists>M. ?x / 2 powi (?e - 52) = of_int M"
  proof (cases "?e \<le> 52")
    case True
    have "?x / 2 powi (?e - 52) = ?x * 2 powi (52 - ?e)"
      by (simp add: power_int_diff field_simps)
    also have "\<dots> = ?x * 2 ^ nat (52 - ?e)"
      using True by (simp add: power_int_def)
    also have "\<dots> = of_int (m * 2 ^ nat (52 - ?e))" by simp
    finally show ?thesis by blast
  next
    case False
    with e53 have e: "?e = 53" by simp
    with b have "2 ^ 53 \<le> \<bar>?x\<bar>" by simp
    with x53 have "\<bar>?x\<bar> = 2 ^ 53" by simp
    then have "?x = 2 ^ 53 \<or> ?x = - (2 ^ 53)" by (simp add: abs_if split: if_splits)
    then have "?x / 2 = of_int (2 ^ 52) \<or> ?x / 2 = of_int (- (2 ^ 52))" by auto
    then have "\<exists>M. ?x / 2 = of_int M" by blast
    then show ?thesis by (simp add: e)
  qed
  then obtain M where M: "?x / 2 powi (?e - 52) = of_int M" by blast
  have "fl ?x = of_int (roundEven (?x / 2 powi (?e - 52))) * 2 powi (?e - 52)"
    using x0 by (simp add: fl_def Let_def)
  also have "\<dots> = (?x / 2 powi (?e - 52)) * 2 powi (?e - 52)"
    by (simp add: M)
  also have "\<dots> = ?x" by simp
  finally show ?thesis .
qed

lemma fl_nat:
  assumes "x \<in> \<nat>" and "x \<le> 2 ^ 53"
  shows "fl x = x"
proof -
  from assms(1) obtain n where n: "x = of_nat n" by (rule Nats_cases)
  then have x: "x = of_int (int n)" by simp
  have "real_of_int \<bar>int n\<bar> \<le> real_of_int (2 ^ 53)" using assms(2) n by simp
  then have "\<bar>int n\<bar> \<le> 2 ^ 53" by (simp only: of_int_le_iff)
  from fl_of_int[OF this] show ?thesis by (simp only: x)
qed

lemma fl_close: "\<bar>fl x - x\<bar> \<le> \<bar>x\<bar> / 2 ^ 53"
proof (cases "x = 0")
  case True
  then show ?thesis by simp
next
  case False
  let ?e = "binade x - 52"
  let ?y = "x / 2 powi ?e"
  note b = binade_bounds[OF False]
  have "fl x - x = (of_int (roundEven ?y) - ?y) * 2 powi ?e"
    using False by (simp add: fl_def Let_def algebra_simps)
  then have "\<bar>fl x - x\<bar> = \<bar>of_int (roundEven ?y) - ?y\<bar> * 2 powi ?e"
    by (simp add: abs_mult)
  also have "\<dots> \<le> (1 / 2) * 2 powi ?e"
    by (intro mult_right_mono roundEven_close) simp
  also have "\<dots> = 2 powi binade x / 2 ^ 53"
    by (simp add: power_int_diff)
  also have "\<dots> \<le> \<bar>x\<bar> / 2 ^ 53"
    using b by (intro divide_right_mono) simp_all
  finally show ?thesis .
qed

lemma binade_scale: "x \<noteq> 0 \<Longrightarrow> binade (x * 2 powi j) = binade x + j"
proof -
  assume x: "x \<noteq> 0"
  note b = binade_bounds[OF x]
  have "2 powi (binade x + j) = 2 powi binade x * (2::real) powi j"
       "2 powi (binade x + j + 1) = 2 powi (binade x + 1) * (2::real) powi j"
    by (simp_all add: power_int_add)
  moreover have "\<bar>x * 2 powi j\<bar> = \<bar>x\<bar> * 2 powi j" by (simp add: abs_mult)
  ultimately have "2 powi (binade x + j) \<le> \<bar>x * 2 powi j\<bar> \<and>
                   \<bar>x * 2 powi j\<bar> < 2 powi (binade x + j + 1)"
    using b by simp
  then show ?thesis using binade_eq by blast
qed

lemma fl_scale: "fl (x * 2 powi j) = fl x * 2 powi j"
proof (cases "x = 0")
  case True
  then show ?thesis by simp
next
  case False
  have "(x * 2 powi j) / 2 powi (binade x + j - 52) = x / 2 powi (binade x - 52)"
    by (simp add: power_int_diff power_int_add)
  moreover have "(2::real) powi (binade x + j - 52) = 2 powi (binade x - 52) * 2 powi j"
    by (simp add: power_int_diff power_int_add)
  ultimately show ?thesis
    using False by (simp add: fl_def Let_def binade_scale)
qed

lemma foldl_dadd_nat:
  assumes "a \<in> \<nat>" and "\<forall>x\<in>set xs. x \<in> \<nat>" and "a + sum_list xs \<le> 2 ^ 53"
  shows "foldl dadd a xs = a + sum_list xs"
  using assms
proof (induction xs arbitrary: a)
  case Nil
  then show ?case by simp
next
  case (Cons x xs)
  then have x: "x \<in> \<nat>" and xs: "\<forall>y\<in>set xs. y \<in> \<nat>" by simp_all
  have "0 \<le> sum_list xs" using xs by (intro sum_list_nonneg) (simp add: nats_nonneg)
  with Cons.prems(3) have "a + x \<le> 2 ^ 53" by simp
  moreover have ax: "a + x \<in> \<nat>" using Cons.prems(1) x by (rule Nats_add)
  ultimately have "dadd a x = a + x" by (simp add: dadd_def fl_nat)
  with Cons.IH[OF ax xs] Cons.prems(3) show ?case by (simp add: add.assoc)
qed



subsection \<open>Sums in order\<close>

lemma sumInOrder_snoc: "xs \<noteq> [] \<Longrightarrow> sumInOrder (xs @ [x]) = dadd (sumInOrder xs) x"
  by (cases xs) simp_all

lemma sumInOrder_nat:
  assumes "\<forall>x\<in>set xs. x \<in> \<nat>" and "sum_list xs \<le> 2 ^ 53"
  shows "sumInOrder xs = sum_list xs"
proof (cases xs)
  case Nil
  then show ?thesis by simp
next
  case (Cons y ys)
  with assms foldl_dadd_nat[of y ys] show ?thesis by simp
qed

subsection \<open>The decimal fractions of the examples\<close>
















section \<open>Properties of the cost aggregation\<close>

subsection \<open>Searching and updating the accumulator\<close>

lemma findIndex_None_iff: "findIndex P xs = None \<longleftrightarrow> (\<forall>x\<in>set xs. \<not> P x)"
  by (induction xs) auto

lemma findIndex_Some: "findIndex P xs = Some i \<Longrightarrow> i < length xs \<and> P (xs ! i)"
proof (induction xs arbitrary: i)
  case Nil
  then show ?case by simp
next
  case (Cons x xs)
  then show ?case by (cases "P x") auto
qed

text \<open>
  When the rows carry pairwise different keys, overwriting the row found by its key is
  the same as mapping over all rows.
\<close>

lemma update_as_map:
  assumes "distinct (map f xs)" and "i < length xs" and "f (xs ! i) = c"
  shows "xs[i := g (xs ! i)] = map (\<lambda>d. if f d = c then g d else d) xs"
  using assms
proof (induction xs arbitrary: i)
  case Nil
  then show ?case by simp
next
  case (Cons x xs)
  from Cons.prems(1) have nx: "f x \<notin> f ` set xs" and dxs: "distinct (map f xs)"
    by simp_all
  show ?case
  proof (cases i)
    case 0
    with Cons.prems(3) have fx: "f x = c" by simp
    have "\<And>d. d \<in> set xs \<Longrightarrow> f d \<noteq> c"
      using nx fx by blast
    then have "map (\<lambda>d. if f d = c then g d else d) xs = xs"
      by (simp add: map_idI)
    with 0 fx show ?thesis by simp
  next
    case (Suc j)
    with Cons.prems have j: "j < length xs" "f (xs ! j) = c" by simp_all
    have "xs ! j \<in> set xs" using j(1) by simp
    then have "f x \<noteq> c" using nx j(2) by (metis imageI)
    with Suc Cons.IH[OF dxs j(1) j(2)] show ?thesis by simp
  qed
qed





lemma sum_filter_mono:
  fixes f :: "'a \<Rightarrow> real"
  assumes "\<And>x. x \<in> set xs \<Longrightarrow> P x \<Longrightarrow> Q x"
    and "\<And>x. x \<in> set xs \<Longrightarrow> Q x \<Longrightarrow> 0 \<le> f x"
  shows "sum_list (map f (filter P xs)) \<le> sum_list (map f (filter Q xs))"
  using assms
proof (induction xs)
  case Nil
  then show ?case by simp
next
  case (Cons x xs)
  then have IH: "sum_list (map f (filter P xs)) \<le> sum_list (map f (filter Q xs))"
    by simp
  show ?case
  proof (cases "Q x")
    case True
    with Cons.prems(2)[of x] have "0 \<le> f x" by simp
    with IH True show ?thesis by simp
  next
    case False
    with Cons.prems(1)[of x] have "\<not> P x" by auto
    with IH False show ?thesis by simp
  qed
qed


subsection \<open>One step of the totals scan\<close>

lemma mergeTotal_simps [simp]:
  "t_key (mergeTotal r d) = t_key d" "t_type (mergeTotal r d) = t_type d"
  "t_cost (mergeTotal r d) = dadd (t_cost d) (cost r)"
  "t_start_time (mergeTotal r d) = min (usage_start_time r) (t_start_time d)"
  "t_end_time (mergeTotal r d) = max (usage_end_time r) (t_end_time d)"
  by (simp_all add: mergeTotal_def)

lemma newTotalRec_simps [simp]:
  "t_key (newTotalRec key k r) = k" "t_type (newTotalRec key k r) = key"
  "t_cost (newTotalRec key k r) = cost r"
  "t_start_time (newTotalRec key k r) = usage_start_time r"
  "t_end_time (newTotalRec key k r) = usage_end_time r"
  by (simp_all add: newTotalRec_def)

lemma totalStep_skip: "\<not> kept key r \<Longrightarrow> totalStep key agg r = agg"
  by (cases "labels r key") (simp_all add: totalStep_def kept_def)

lemma totalStep_push:
  assumes "labels r key = Some k" and "0 \<le> cost r" and "k \<notin> t_key ` set agg"
  shows "totalStep key agg r = agg @ [newTotalRec key k r]"
proof -
  have "findIndex (\<lambda>d. Some (t_key d) = Some k) agg = None"
    using assms(3) by (auto simp: findIndex_None_iff)
  with assms(1,2) show ?thesis by (simp add: totalStep_def)
qed

lemma totalStep_merge:
  assumes "labels r key = Some k" and "0 \<le> cost r" and "k \<in> t_key ` set agg"
  shows "\<exists>i<length agg. t_key (agg ! i) = k \<and>
           totalStep key agg r = agg[i := mergeTotal r (agg ! i)]"
proof -
  have "findIndex (\<lambda>d. Some (t_key d) = Some k) agg \<noteq> None"
    using assms(3) by (auto simp: findIndex_None_iff)
  then obtain i where i: "findIndex (\<lambda>d. Some (t_key d) = Some k) agg = Some i" by blast
  from findIndex_Some[OF i] have "i < length agg" "t_key (agg ! i) = k" by simp_all
  moreover from i assms(1,2) have "totalStep key agg r = agg[i := mergeTotal r (agg ! i)]"
    by (simp add: totalStep_def)
  ultimately show ?thesis by blast
qed


lemma prepareTotalRow_snoc:
  "prepareTotalRow (data @ [r]) key = totalStep key (prepareTotalRow data key) r"
  by (simp add: prepareTotalRow_def)

subsection \<open>Keys and rows of the totals\<close>

lemma in_group_kept: "in_group key k r \<Longrightarrow> kept key r"
  by (simp add: in_group_def kept_def)

lemma in_group_iff:
  "labels r key = Some k' \<Longrightarrow> 0 \<le> cost r \<Longrightarrow> in_group key k r \<longleftrightarrow> k = k'"
  by (auto simp: in_group_def)

lemma totalStep_keys:
  assumes "labels r key = Some k" and "0 \<le> cost r"
  shows "map t_key (totalStep key agg r) =
         (if k \<in> t_key ` set agg then map t_key agg else map t_key agg @ [k])"
proof (cases "k \<in> t_key ` set agg")
  case False
  with totalStep_push[OF assms False] show ?thesis by simp
next
  case True
  from totalStep_merge[OF assms True] obtain i where
    i: "i < length agg" "t_key (agg ! i) = k"
       "totalStep key agg r = agg[i := mergeTotal r (agg ! i)]" by blast
  have "map t_key (agg[i := mergeTotal r (agg ! i)]) = (map t_key agg)[i := map t_key agg ! i]"
    using i(1) by (simp add: map_update)
  also have "\<dots> = map t_key agg" by (rule list_update_id)
  finally show ?thesis using True i(3) by simp
qed

lemma prepareTotalRow_keys:
  "distinct (map t_key (prepareTotalRow data key)) \<and>
   t_key ` set (prepareTotalRow data key) = {k. \<exists>r\<in>set data. in_group key k r}"
proof (induction data rule: rev_induct)
  case Nil
  show ?case by (simp add: prepareTotalRow_def)
next
  case (snoc r data)
  let ?rows = "prepareTotalRow data key"
  show ?case
  proof (cases "kept key r")
    case False
    then have "\<And>k. \<not> in_group key k r" using in_group_kept by blast
    with False snoc show ?thesis
      by (simp add: prepareTotalRow_snoc totalStep_skip)
  next
    case True
    then obtain k where k: "labels r key = Some k" "0 \<le> cost r"
      by (auto simp: kept_def)
    have ks: "map t_key (prepareTotalRow (data @ [r]) key) =
          (if k \<in> t_key ` set ?rows then map t_key ?rows else map t_key ?rows @ [k])"
      unfolding prepareTotalRow_snoc by (rule totalStep_keys[OF k])
    have d: "distinct (map t_key (prepareTotalRow (data @ [r]) key))"
      unfolding ks using snoc by simp
    have "set (map t_key (prepareTotalRow (data @ [r]) key)) = insert k (t_key ` set ?rows)"
      unfolding ks by auto
    also have "\<dots> = {k'. \<exists>r'\<in>set (data @ [r]). in_group key k' r'}"
      using snoc in_group_iff[OF k] by auto
    finally show ?thesis using d by simp
  qed
qed

text \<open>
  A row holds the costs of its group added in the order of the records, the earliest
  start and the latest end.
\<close>

lemma prepareTotalRow_rows:
  assumes "row \<in> set (prepareTotalRow data key)"
  shows "t_type row = key \<and>
         filter (in_group key (t_key row)) data \<noteq> [] \<and>
         t_cost row = sumInOrder (map cost (filter (in_group key (t_key row)) data)) \<and>
         t_start_time row =
           Min (usage_start_time ` set (filter (in_group key (t_key row)) data)) \<and>
         t_end_time row =
           Max (usage_end_time ` set (filter (in_group key (t_key row)) data))"
  using assms
proof (induction data arbitrary: row rule: rev_induct)
  case Nil
  then show ?case by (simp add: prepareTotalRow_def)
next
  case (snoc r data)
  let ?rows = "prepareTotalRow data key"
  note K = prepareTotalRow_keys[of data key]
  show ?case
  proof (cases "kept key r")
    case False
    then have "\<And>k. \<not> in_group key k r" using in_group_kept by blast
    with False snoc show ?thesis
      by (simp add: prepareTotalRow_snoc totalStep_skip)
  next
    case True
    then obtain k where k: "labels r key = Some k" "0 \<le> cost r"
      by (auto simp: kept_def)
    note grp = in_group_iff[OF k]
    show ?thesis
    proof (cases "k \<in> t_key ` set ?rows")
      case False
      then have emp: "filter (in_group key k) data = []"
        using K by (auto simp: filter_empty_conv)
      from snoc.prems totalStep_push[OF k False]
      consider "row \<in> set ?rows" | "row = newTotalRec key k r"
        by (auto simp: prepareTotalRow_snoc)
      then show ?thesis
      proof cases
        case 1
        then have "t_key row \<noteq> k" using False by blast
        with snoc.IH[OF 1] grp show ?thesis by simp
      next
        case 2
        with emp grp show ?thesis by simp
      qed
    next
      case True
      from totalStep_merge[OF k True] obtain i where
        i: "i < length ?rows" "t_key (?rows ! i) = k"
           "totalStep key ?rows r = ?rows[i := mergeTotal r (?rows ! i)]" by blast
      have dist: "distinct (map t_key ?rows)" using K by simp
      have "totalStep key ?rows r = map (\<lambda>d. if t_key d = k then mergeTotal r d else d) ?rows"
        unfolding i(3) by (rule update_as_map[OF dist i(1) i(2)])
      with snoc.prems obtain d where d: "d \<in> set ?rows"
        "row = (if t_key d = k then mergeTotal r d else d)"
        by (auto simp: prepareTotalRow_snoc)
      note IH = snoc.IH[OF d(1)]
      show ?thesis
      proof (cases "t_key d = k")
        case False
        with d(2) IH grp show ?thesis by simp
      next
        case True
        let ?g = "filter (in_group key k) data"
        from IH True have ne: "?g \<noteq> []" by simp
        then have "set ?g \<noteq> {}" by (simp only: set_empty not_False_eq_True)
        then have ne': "usage_start_time ` set ?g \<noteq> {}" "usage_end_time ` set ?g \<noteq> {}"
          by (simp_all only: image_is_empty not_False_eq_True)
        have "Min (usage_start_time ` set (?g @ [r])) =
              min (usage_start_time r) (Min (usage_start_time ` set ?g))"
          using ne' by simp
        moreover have "Max (usage_end_time ` set (?g @ [r])) =
              max (usage_end_time r) (Max (usage_end_time ` set ?g))"
          using ne' by simp
        moreover have "sumInOrder (map cost (?g @ [r])) =
              dadd (sumInOrder (map cost ?g)) (cost r)"
          using ne sumInOrder_snoc[of "map cost ?g" "cost r"] by simp
        ultimately show ?thesis using True d(2) IH grp by simp
      qed
    qed
  qed
qed

subsection \<open>Whole-number costs: no addition rounds\<close>



lemma wholeCosts_kept_sum:
  assumes "wholeCosts data"
  shows "sum_list (map cost (filter (kept key) data)) \<le> 2 ^ 53"
proof -
  have "sum_list (map cost (filter (kept key) data)) \<le>
        sum_list (map cost (filter (\<lambda>r. 0 \<le> cost r) data))"
    by (rule sum_filter_mono) (simp_all add: kept_def)
  with assms show ?thesis by (simp add: wholeCosts_def)
qed

lemma group_le_kept_sum:
  "sum_list (map cost (filter (in_group key k) data)) \<le>
   sum_list (map cost (filter (kept key) data))"
  by (rule sum_filter_mono) (simp_all add: kept_def in_group_def)

lemma wholeCosts_group_nat:
  assumes "wholeCosts data"
  shows "\<forall>x\<in>set (map cost (filter (in_group key k) data)). x \<in> \<nat>"
  using assms by (auto simp: wholeCosts_def in_group_def)


lemma prepareTotalRow_rows_whole:
  assumes "wholeCosts data" and "row \<in> set (prepareTotalRow data key)"
  shows "t_cost row = sum_list (map cost (filter (in_group key (t_key row)) data))"
proof -
  let ?g = "map cost (filter (in_group key (t_key row)) data)"
  have "sum_list ?g \<le> 2 ^ 53"
    using group_le_kept_sum[of key "t_key row" data] wholeCosts_kept_sum[OF assms(1), of key]
    by simp
  with wholeCosts_group_nat[OF assms(1)] have "sumInOrder ?g = sum_list ?g"
    by (rule sumInOrder_nat)
  with prepareTotalRow_rows[OF assms(2)] show ?thesis by simp
qed





subsection \<open>The details scan\<close>

lemma newDetailRec_simps [simp]:
  "d_key (newDetailRec key k r) = k" "d_type (newDetailRec key k r) = key"
  "d_cost (newDetailRec key k r) = cost r"
  by (simp_all add: newDetailRec_def)

lemma mergeDetail_simps [simp]:
  "d_key (mergeDetail r d) = d_key d" "d_type (mergeDetail r d) = d_type d"
  "d_cost (mergeDetail r d) = dadd (d_cost d) (cost r)"
  by (simp_all add: mergeDetail_def)

lemma detailStep_skip: "\<not> kept key r \<Longrightarrow> detailStep key agg r = agg"
  by (cases "labels r key") (simp_all add: detailStep_def kept_def)







subsection \<open>Totals combined with details\<close>




subsection \<open>The sample extract, evaluated\<close>

lemma sampleUsage_totals:
  "prepareTotalRow sampleUsage ''ar-guid'' =
     [mergeTotal (usage 3 80 150 ''disk'' [''ar-guid'' \<mapsto> ''run1''])
        (newTotalRec ''ar-guid'' ''run1'' (usage 2 100 200 ''cpu'' [''ar-guid'' \<mapsto> ''run1'']))]"
  by (simp add: prepareTotalRow_def sampleUsage_def totalStep_def usage_def)

lemma sampleUsage_details:
  "prepareDetails sampleUsage ''ar-guid'' =
     [newDetailRec ''ar-guid'' ''run1'' (usage 2 100 200 ''cpu'' [''ar-guid'' \<mapsto> ''run1'']),
      newDetailRec ''ar-guid'' ''run1'' (usage 3 80 150 ''disk'' [''ar-guid'' \<mapsto> ''run1''])]"
  by (simp add: prepareDetails_def sampleUsage_def detailStep_def usage_def newDetailRec_def)

lemma sampleUsage_other_keys:
  "key \<noteq> ''ar-guid'' \<Longrightarrow> prepareTotalRow sampleUsage key = []"
  "key \<noteq> ''ar-guid'' \<Longrightarrow> prepareDetails sampleUsage key = []"
  by (simp_all add: prepareTotalRow_def prepareDetails_def sampleUsage_def totalStep_def
        detailStep_def usage_def)


lemma wholeCosts_sampleUsage: "wholeCosts sampleUsage"
  by (simp add: wholeCosts_def sampleUsage_def usage_def)












subsection \<open>The claims about the aggregation\<close>




text \<open>
  Claim C4. A record whose value at the grouping key is undefined, or whose cost is
  negative, contributes to neither aggregation: the callback of \<open>prepareTotalRow\<close> and
  that of \<open>prepareDetails\<close> return the accumulator as it was (no row is added, and no
  row's cost, start time or end time changes), and so both functions return the same rows
  for a list with the record as for the list without it.
\<close>

theorem skipped_record_contributes_nothing:
  assumes "labels r key = None \<or> cost r < 0"
  shows "totalStep key agg r = agg \<and> detailStep key agg' r = agg' \<and>
         prepareTotalRow (xs @ r # ys) key = prepareTotalRow (xs @ ys) key \<and>
         prepareDetails (xs @ r # ys) key = prepareDetails (xs @ ys) key"
proof -
  from assms have "\<not> kept key r" by (auto simp: kept_def)
  then show ?thesis
    by (simp add: prepareTotalRow_def prepareDetails_def totalStep_skip detailStep_skip)
qed

theorem skipped_record_contributes_nothing_witness:
  "cost (usage (-1) 50 60 ''cpu'' [''ar-guid'' \<mapsto> ''run1'']) < 0 \<and>
   totalStep ''ar-guid'' (prepareTotalRow sampleUsage ''ar-guid'')
     (usage (-1) 50 60 ''cpu'' [''ar-guid'' \<mapsto> ''run1'']) =
   prepareTotalRow sampleUsage ''ar-guid'' \<and>
   detailStep ''ar-guid'' (prepareDetails sampleUsage ''ar-guid'')
     (usage (-1) 50 60 ''cpu'' [''ar-guid'' \<mapsto> ''run1'']) =
   prepareDetails sampleUsage ''ar-guid''"
proof -
  have neg: "cost (usage (-1) 50 60 ''cpu'' [''ar-guid'' \<mapsto> ''run1'']) < 0"
    by (simp add: usage_def)
  then have "labels (usage (-1) 50 60 ''cpu'' [''ar-guid'' \<mapsto> ''run1'']) ''ar-guid'' = None \<or>
             cost (usage (-1) 50 60 ''cpu'' [''ar-guid'' \<mapsto> ''run1'']) < 0" by (rule disjI2)
  from skipped_record_contributes_nothing[OF this] neg show ?thesis by blast
qed

text \<open>
  Claim C5. In the result of \<open>prepareTotalRow\<close> there is exactly one row for every
  distinct key value carried by a record that is not skipped, and for every row: its cost
  is the sum of the costs of the non-skipped records of its group, added in the order of
  the records (and equal to their exact sum when the costs are whole numbers adding up to
  at most \<open>2 ^ 53\<close>), its start time is the minimum of their start times and its end time
  is the maximum of their end times.
\<close>

theorem prepareTotalRow_group_row:
  "distinct (map t_key (prepareTotalRow data key)) \<and>
   t_key ` set (prepareTotalRow data key) =
     {k. \<exists>r\<in>set data. labels r key = Some k \<and> cost r \<ge> 0} \<and>
   (\<forall>row\<in>set (prepareTotalRow data key).
      t_cost row =
        sumInOrder (map cost
          (filter (\<lambda>r. labels r key = Some (t_key row) \<and> cost r \<ge> 0) data)) \<and>
      (wholeCosts data \<longrightarrow>
         t_cost row =
           sum_list (map cost
             (filter (\<lambda>r. labels r key = Some (t_key row) \<and> cost r \<ge> 0) data))) \<and>
      t_start_time row =
        Min (usage_start_time `
          set (filter (\<lambda>r. labels r key = Some (t_key row) \<and> cost r \<ge> 0) data)) \<and>
      t_end_time row =
        Max (usage_end_time `
          set (filter (\<lambda>r. labels r key = Some (t_key row) \<and> cost r \<ge> 0) data)))"
proof -
  have g: "\<And>k. in_group key k = (\<lambda>r. labels r key = Some k \<and> cost r \<ge> 0)"
    by (simp add: in_group_def fun_eq_iff)
  from prepareTotalRow_keys[of data key] prepareTotalRow_rows[of _ data key]
    prepareTotalRow_rows_whole[of data _ key]
  show ?thesis unfolding g by blast
qed

theorem prepareTotalRow_group_row_witness:
  "hd (prepareTotalRow sampleUsage ''ar-guid'') \<in> set (prepareTotalRow sampleUsage ''ar-guid'') \<and>
   t_key (hd (prepareTotalRow sampleUsage ''ar-guid'')) = ''run1'' \<and>
   t_cost (hd (prepareTotalRow sampleUsage ''ar-guid'')) = 5 \<and>
   t_start_time (hd (prepareTotalRow sampleUsage ''ar-guid'')) = 80 \<and>
   t_end_time (hd (prepareTotalRow sampleUsage ''ar-guid'')) = 200"
proof -
  let ?row = "hd (prepareTotalRow sampleUsage ''ar-guid'')"
  have mem: "?row \<in> set (prepareTotalRow sampleUsage ''ar-guid'')"
    by (simp add: sampleUsage_totals)
  have key: "t_key ?row = ''run1''" by (simp add: sampleUsage_totals)
  from prepareTotalRow_group_row[of sampleUsage "''ar-guid''"] mem wholeCosts_sampleUsage
  have "t_cost ?row =
        sum_list (map cost
          (filter (\<lambda>r. labels r ''ar-guid'' = Some (t_key ?row) \<and> cost r \<ge> 0) sampleUsage)) \<and>
      t_start_time ?row =
        Min (usage_start_time `
          set (filter (\<lambda>r. labels r ''ar-guid'' = Some (t_key ?row) \<and> cost r \<ge> 0) sampleUsage)) \<and>
      t_end_time ?row =
        Max (usage_end_time `
          set (filter (\<lambda>r. labels r ''ar-guid'' = Some (t_key ?row) \<and> cost r \<ge> 0) sampleUsage))"
    by blast
  then have "t_cost ?row = 5 \<and> t_start_time ?row = 80 \<and> t_end_time ?row = 200"
    unfolding key by (simp add: sampleUsage_def usage_def)
  with mem key show ?thesis by blast
qed





section \<open>Properties of the grid layout\<close>

subsection \<open>Row spans\<close>

lemma foldl_add_sum: "foldl (\<lambda>a b. a + b) (a::nat) xs = a + sum_list xs"
  by (induction xs arbitrary: a) simp_all

lemma reduceAdd_sum_list: "reduceAdd xs = sum_list xs"
  by (simp add: reduceAdd_def foldl_add_sum)

lemma lengthOfSamples_sum:
  "lengthOfSamples s = (\<Sum>g\<leftarrow>orEmpty (sequencing_groups s). length (orEmpty (assays g)))"
  by (simp add: lengthOfSamples_def reduceAdd_sum_list)

lemma lengthOfParticipant_sum:
  "lengthOfParticipant p =
     (\<Sum>s\<leftarrow>samples p.
        max 1 (\<Sum>g\<leftarrow>orEmpty (sequencing_groups s). length (orEmpty (assays g))))"
  by (simp add: lengthOfParticipant_def reduceAdd_sum_list)

lemma sum_list_max1_pos: "xs \<noteq> [] \<Longrightarrow> 0 < (\<Sum>x\<leftarrow>xs. max (1::nat) (f x))"
  by (cases xs) (simp_all add: max_def)

lemma participantRowSpan_sum:
  assumes "samples p \<noteq> []"
  shows "participantRowSpan p =
     Some (\<Sum>s\<leftarrow>samples p.
             max 1 (\<Sum>g\<leftarrow>orEmpty (sequencing_groups s). length (orEmpty (assays g))))"
  using sum_list_max1_pos[OF assms]
  by (simp add: participantRowSpan_def lengthOfParticipant_sum)

lemma sampleRows_participant_cells:
  "row \<in> set (sampleRows bg p sidx s) \<Longrightarrow> participant_cells row = Some rs \<Longrightarrow>
   rs = participantRowSpan p"
  by (auto simp: sampleRows_def Let_def split: if_splits)

lemma participantRows_participant_cells:
  assumes "row \<in> set (participantRows pidx p)" and "participant_cells row = Some rs"
  shows "samples p \<noteq> [] \<and> rs = participantRowSpan p"
proof -
  from assms(1) obtain sidx s where "row \<in> set (sampleRows
      (if pidx mod 2 = 0 then ''var(--color-bg)'' else ''var(--color-bg-disabled)'') p sidx s)"
    and "(sidx, s) \<in> set (enumerate 0 (samples p))"
    by (auto simp: participantRows_def)
  then show ?thesis using assms(2) sampleRows_participant_cells by (cases "samples p") auto
qed

subsection \<open>Placeholders and rendered rows\<close>

lemma sgs_nonempty: "sgs s \<noteq> []"
  by (simp add: sgs_def Let_def)

lemma sgs_placeholder: "orEmpty (sequencing_groups s) = [] \<Longrightarrow> sgs s = [emptyGroup]"
  by (simp add: sgs_def)

lemma rowAssays_missing: "assays sg = None \<Longrightarrow> rowAssays sg = [placeholderAssay]"
  by (simp add: rowAssays_def)

lemma rowAssays_empty: "assays sg = Some [] \<Longrightarrow> rowAssays sg = []"
  by (simp add: rowAssays_def)

lemma rowAssaysByLength_nonempty: "rowAssaysByLength sg \<noteq> []"
  by (simp add: rowAssaysByLength_def split: option.splits)

lemma length_concat_enumerate:
  "length (concat (map (\<lambda>(i, x). map (g i x) (enumerate 0 (h x))) (enumerate n xs))) =
   (\<Sum>x\<leftarrow>xs. length (h x))"
  by (induction xs arbitrary: n) simp_all

lemma length_sampleRows:
  "length (sampleRows bg p sidx s) = (\<Sum>sg\<leftarrow>sgs s. length (rowAssays sg))"
  unfolding sampleRows_def by (rule length_concat_enumerate)

lemma sampleRows_without_groups:
  "orEmpty (sequencing_groups s) = [] \<Longrightarrow> length (sampleRows bg p sidx s) = 1"
  by (simp add: length_sampleRows sgs_placeholder emptyGroup_def rowAssays_def)

lemma sum_list_length_pos:
  "0 < (\<Sum>x\<leftarrow>xs. length (h x)) \<longleftrightarrow> (\<exists>x\<in>set xs. h x \<noteq> [])"
  by (induction xs) auto

lemma sampleRows_nonempty_iff:
  "sampleRows bg p sidx s \<noteq> [] \<longleftrightarrow> (\<exists>sg\<in>set (sgs s). assays sg \<noteq> Some [])"
proof -
  have "sampleRows bg p sidx s \<noteq> [] \<longleftrightarrow> 0 < length (sampleRows bg p sidx s)"
    by simp
  also have "\<dots> \<longleftrightarrow> 0 < (\<Sum>sg\<leftarrow>sgs s. length (rowAssays sg))"
    by (simp only: length_sampleRows)
  also have "\<dots> \<longleftrightarrow> (\<exists>sg\<in>set (sgs s). rowAssays sg \<noteq> [])"
    by (rule sum_list_length_pos)
  also have "\<dots> \<longleftrightarrow> (\<exists>sg\<in>set (sgs s). assays sg \<noteq> Some [])"
    by (auto simp: rowAssays_def split: option.splits)
  finally show ?thesis .
qed

subsection \<open>The claims about the grid\<close>

text \<open>
  Claim C2. The row span of a participant is the sum over its samples of the maximum of 1
  and the total number of assays of the sample's sequencing groups: that is the value of
  \<open>participantRowSpan\<close> for a participant with at least one sample, and the \<open>rowSpan\<close>
  of every participant cell that the grid emits. In particular a participant with two
  samples of one sequencing group each, with 3 and 0 assays, has row span 3 + 1 = 4.
\<close>

theorem participant_row_span:
  "(samples p \<noteq> [] \<longrightarrow>
      participantRowSpan p =
        Some (\<Sum>s\<leftarrow>samples p.
                max 1 (\<Sum>g\<leftarrow>orEmpty (sequencing_groups s). length (orEmpty (assays g))))) \<and>
   (\<forall>row\<in>set (participantRows pidx p). \<forall>rs. participant_cells row = Some rs \<longrightarrow>
      rs =
        Some (\<Sum>s\<leftarrow>samples p.
                max 1 (\<Sum>g\<leftarrow>orEmpty (sequencing_groups s). length (orEmpty (assays g))))) \<and>
   (\<forall>s1 s2 g1 g2.
      samples p = [s1, s2] \<and> sequencing_groups s1 = Some [g1] \<and>
      sequencing_groups s2 = Some [g2] \<and>
      length (orEmpty (assays g1)) = 3 \<and> length (orEmpty (assays g2)) = 0 \<longrightarrow>
      participantRowSpan p = Some 4)"
proof (intro conjI allI ballI impI)
  assume "samples p \<noteq> []"
  then show "participantRowSpan p =
        Some (\<Sum>s\<leftarrow>samples p.
                max 1 (\<Sum>g\<leftarrow>orEmpty (sequencing_groups s). length (orEmpty (assays g))))"
    by (rule participantRowSpan_sum)
next
  fix row rs
  assume "row \<in> set (participantRows pidx p)" and "participant_cells row = Some rs"
  from participantRows_participant_cells[OF this]
  show "rs =
        Some (\<Sum>s\<leftarrow>samples p.
                max 1 (\<Sum>g\<leftarrow>orEmpty (sequencing_groups s). length (orEmpty (assays g))))"
    by (simp add: participantRowSpan_sum)
next
  fix s1 s2 g1 g2
  assume a: "samples p = [s1, s2] \<and> sequencing_groups s1 = Some [g1] \<and>
      sequencing_groups s2 = Some [g2] \<and>
      length (orEmpty (assays g1)) = 3 \<and> length (orEmpty (assays g2)) = 0"
  then have "samples p \<noteq> []" by simp
  from participantRowSpan_sum[OF this] a show "participantRowSpan p = Some 4"
    by (simp add: orEmpty_def)
qed

theorem participant_row_span_witness:
  "samples participantAB \<noteq> [] \<and>
   participantRowSpan participantAB = Some 4 \<and>
   hd (participantRows 0 participantAB) \<in> set (participantRows 0 participantAB) \<and>
   participant_cells (hd (participantRows 0 participantAB)) = Some (Some 4)"
proof -
  have ne: "samples participantAB \<noteq> []" by (simp add: participantAB_def)
  with participant_row_span[of participantAB 0]
  have "participantRowSpan participantAB =
        Some (\<Sum>s\<leftarrow>samples participantAB.
                max 1 (\<Sum>g\<leftarrow>orEmpty (sequencing_groups s). length (orEmpty (assays g))))"
    by blast
  then have rs: "participantRowSpan participantAB = Some 4"
    by (simp add: participantAB_def sampleA_def sampleB_def threeAssays_def noAssays_def
          orEmpty_def)
  have rows: "participantRows 0 participantAB \<noteq> []"
    by (simp add: participantRows_def participantAB_def sampleRows_def sampleA_def
          threeAssays_def sgs_def orEmpty_def rowAssays_def enumerate_eq_zip upt_rec)
  have "participant_cells (hd (participantRows 0 participantAB)) =
        Some (participantRowSpan participantAB)"
    by (simp add: participantRows_def sampleRows_def sampleA_def sampleB_def
          threeAssays_def noAssays_def sgs_def orEmpty_def rowAssays_def enumerate_eq_zip
          upt_rec participantAB_def[THEN arg_cong, of samples])
  with ne rs rows show ?thesis by simp
qed

text \<open>
  Claim C3. A sample without sequencing groups gets one placeholder group and a
  sequencing group without assays gets one placeholder assay, so that every sample renders
  at least one row. The code does this for a missing or empty list of sequencing groups
  (\<open>sampleRows_without_groups\<close>) and for a missing list of assays (\<open>rowAssays_missing\<close>),
  but not for an assay list that is present and empty: the test \<open>!!sg?.assays\<close> holds for
  the empty array, so the group is rendered with no assay and no row at all
  (\<open>rowAssays_empty\<close>, \<open>sampleRows_nonempty_iff\<close>). The participant of the example then
  announces a row span of 4 and renders 3 rows, none of them for its second sample. The
  other copy of the component tests the length of the list and always renders a row
  (\<open>rowAssaysByLength_nonempty\<close>).
\<close>

theorem empty_assay_list_renders_no_row:
  "assays noAssays = Some [] \<and>
   rowAssays noAssays = [] \<and>
   sampleRows ''var(--color-bg)'' participantAB 1 sampleB = [] \<and>
   length (participantRows 0 participantAB) = 3 \<and>
   participantRowSpan participantAB = Some 4 \<and>
   rowAssaysByLength noAssays = [\<lparr> a_id = None \<rparr>] \<and>
   length (participantRows 0 participantAC) = 4"
proof (intro conjI)
  show "assays noAssays = Some []" by (simp add: noAssays_def)
  show "rowAssays noAssays = []" by (simp add: noAssays_def rowAssays_def)
  show "sampleRows ''var(--color-bg)'' participantAB 1 sampleB = []"
    by (simp add: sampleRows_def sampleB_def noAssays_def sgs_def orEmpty_def rowAssays_def
          enumerate_eq_zip)
  show "length (participantRows 0 participantAB) = 3"
    by (simp add: participantRows_def participantAB_def length_sampleRows length_concat
          sampleA_def sampleB_def noAssays_def threeAssays_def sgs_def orEmpty_def
          rowAssays_def enumerate_eq_zip upt_rec)
  show "participantRowSpan participantAB = Some 4"
    by (simp add: participantRowSpan_def lengthOfParticipant_def participantAB_def
          sampleA_def sampleB_def threeAssays_def noAssays_def orEmpty_def reduceAdd_def)
  show "rowAssaysByLength noAssays = [\<lparr> a_id = None \<rparr>]"
    by (simp add: rowAssaysByLength_def noAssays_def)
  show "length (participantRows 0 participantAC) = 4"
    by (simp add: participantRows_def participantAC_def length_sampleRows length_concat
          sampleA_def sampleC_def missingAssays_def threeAssays_def sgs_def orEmpty_def
          rowAssays_def enumerate_eq_zip upt_rec placeholderAssay_def)
qed

section \<open>Properties of the value formatting\<close>

subsection \<open>The unit index and the rounding of formatBytes\<close>

lemma rel_bounds:
  fixes x y d :: real
  assumes "\<bar>y - x\<bar> \<le> \<bar>x\<bar> / d" and "0 \<le> x"
  shows "x * (1 - 1 / d) \<le> y" and "y \<le> x * (1 + 1 / d)"
proof -
  have "\<bar>y - x\<bar> \<le> x / d" using assms by simp
  then have le: "y - x \<le> x / d" "x - y \<le> x / d" by linarith+
  show "x * (1 - 1 / d) \<le> y" unfolding right_diff_distrib using le(2) by simp
  show "y \<le> x * (1 + 1 / d)" unfolding distrib_left using le(1) by simp
qed

lemma fl_rel_bounds:
  assumes "0 \<le> r"
  shows "r * (1 - 1 / 2 ^ 53) \<le> fl r" and "fl r \<le> r * (1 + 1 / 2 ^ 53)"
  using rel_bounds[OF fl_close[of r] assms] by blast+

lemma ln_1024_bounds: "0 < ln (1024::real)" "ln (1024::real) < 10"
proof -
  show "0 < ln (1024::real)" by simp
  have "ln (1024::real) = 10 * ln 2" using ln_realpow[of "2::real" 10] by simp
  also have "\<dots> < 10" using ln_2_less_1 by simp
  finally show "ln (1024::real) < 10" .
qed

lemma log_quotient_bounds:
  fixes mathLog :: "real \<Rightarrow> real" and b :: real
  assumes H: "\<And>x. 0 < x \<Longrightarrow> \<bar>mathLog x - ln x\<bar> \<le> \<bar>ln x\<bar> / 2 ^ 40"
    and b: "1 \<le> b"
  shows "0 < mathLog 1024"
    and "0 \<le> mathLog b / mathLog 1024"
    and "ln b * (1 - 1 / 2 ^ 40) / (ln 1024 * (1 + 1 / 2 ^ 40)) \<le> mathLog b / mathLog 1024"
    and "mathLog b / mathLog 1024 \<le> ln b * (1 + 1 / 2 ^ 40) / (ln 1024 * (1 - 1 / 2 ^ 40))"
proof -
  define c :: real where "c = ln 1024"
  define A where "A = ln b"
  have c: "0 < c" using ln_1024_bounds by (simp add: c_def)
  have A: "0 \<le> A" using b by (simp add: A_def)
  have "\<bar>mathLog 1024 - c\<bar> \<le> \<bar>c\<bar> / 2 ^ 40" using H[of 1024] by (simp add: c_def)
  from rel_bounds[OF this] c
  have k: "c * (1 - 1 / 2 ^ 40) \<le> mathLog 1024" "mathLog 1024 \<le> c * (1 + 1 / 2 ^ 40)"
    by simp_all
  have "\<bar>mathLog b - A\<bar> \<le> \<bar>A\<bar> / 2 ^ 40" using H[of b] b by (simp add: A_def)
  from rel_bounds[OF this A]
  have l: "A * (1 - 1 / 2 ^ 40) \<le> mathLog b" "mathLog b \<le> A * (1 + 1 / 2 ^ 40)"
    by simp_all
  have cl: "0 < c * (1 - 1 / 2 ^ 40)" using c by simp
  with k show pos: "0 < mathLog 1024" by linarith
  have al: "0 \<le> A * (1 - 1 / 2 ^ 40)" using A by simp
  with l have nn: "0 \<le> mathLog b" by linarith
  with pos show "0 \<le> mathLog b / mathLog 1024" by simp
  have "A * (1 - 1 / 2 ^ 40) / (c * (1 + 1 / 2 ^ 40)) \<le> mathLog b / mathLog 1024"
    using nn l(1) pos k(2) by (rule frac_le)
  then show "ln b * (1 - 1 / 2 ^ 40) / (ln 1024 * (1 + 1 / 2 ^ 40)) \<le> mathLog b / mathLog 1024"
    by (simp only: A_def c_def)
  have "0 \<le> A * (1 + 1 / 2 ^ 40)" using A by simp
  then have "mathLog b / mathLog 1024 \<le> A * (1 + 1 / 2 ^ 40) / (c * (1 - 1 / 2 ^ 40))"
    using l(2) cl k(1) by (rule frac_le)
  then show "mathLog b / mathLog 1024 \<le> ln b * (1 + 1 / 2 ^ 40) / (ln 1024 * (1 - 1 / 2 ^ 40))"
    by (simp only: A_def c_def)
qed


lemma ln_power_1024: "ln ((1024::real) ^ n) = real n * ln 1024"
  by (simp add: ln_realpow)

lemma unitIndex_region:
  fixes mathLog :: "real \<Rightarrow> real" and b :: real and i :: nat
  assumes H: "\<And>x. 0 < x \<Longrightarrow> \<bar>mathLog x - ln x\<bar> \<le> \<bar>ln x\<bar> / 2 ^ 40"
    and i: "i \<le> 8"
    and lo: "i = 0 \<and> 1 \<le> b \<or> 1024 ^ i * (1 + 1 / 10 ^ 9) \<le> b"
    and hi: "b \<le> 1024 ^ (i + 1) * (1 - 1 / 10 ^ 9)"
  shows "unitIndex mathLog b = int i"
proof -
  define c :: real where "c = ln 1024"
  define A where "A = ln b"
  define P where "P = real i * c"
  define r where "r = mathLog b / mathLog 1024"
  have c: "0 < c" "c < 10" using ln_1024_bounds by (simp_all add: c_def)
  have u53: "(0::real) \<le> 1 - 1 / 2 ^ 53" by simp
  have v53: "(0::real) \<le> 1 + 1 / 2 ^ 53" by simp
  have p1: "(1::real) \<le> 1024 ^ i" by simp
  have "(1::real) * 1 \<le> 1024 ^ i * (1 + 1 / 10 ^ 9)"
    by (rule mult_mono[OF p1]) simp_all
  with lo have b1: "1 \<le> b" by auto
  then have b0: "0 < b" by simp
  have A0: "0 \<le> A" using b1 by (simp add: A_def)
  have P0: "0 \<le> P" using c by (simp add: P_def)
  have "real i * c \<le> 8 * 10" using i c by (intro mult_mono) simp_all
  then have P80: "P \<le> 80" by (simp add: P_def)
  note Q = log_quotient_bounds[OF H b1, folded r_def A_def c_def]
  have r0: "0 \<le> r" using Q(2) .
  have Alo: "i = 0 \<or> P + (1 / 10 ^ 9 - (1 / 10 ^ 9)\<^sup>2) \<le> A"
  proof (cases "i = 0")
    case False
    with lo have "1024 ^ i * (1 + 1 / 10 ^ 9) \<le> b" by simp
    then have "ln (1024 ^ i * (1 + 1 / 10 ^ 9)) \<le> ln b"
      by (subst ln_le_cancel_iff) (simp_all add: b0)
    moreover have "ln (1024 ^ i * (1 + 1 / 10 ^ 9)) = P + ln (1 + 1 / 10 ^ 9 :: real)"
      by (subst ln_mult_pos) (simp_all add: ln_power_1024 P_def c_def)
    moreover have "1 / 10 ^ 9 - (1 / 10 ^ 9)\<^sup>2 \<le> ln (1 + 1 / 10 ^ 9 :: real)"
      by (rule ln_one_plus_pos_lower_bound) simp_all
    ultimately show ?thesis by (simp add: A_def)
  qed simp
  have key1: "P * (1 + 1 / 2 ^ 40) \<le> A * ((1 - 1 / 2 ^ 40) * (1 - 1 / 2 ^ 53))"
  proof (cases "i = 0")
    case True
    then have "P = 0" by (simp add: P_def)
    then show ?thesis using A0 by simp
  next
    case False
    with Alo have "P + (1 / 10 ^ 9 - (1 / 10 ^ 9)\<^sup>2) \<le> A" by simp
    then have "(P + (1 / 10 ^ 9 - (1 / 10 ^ 9)\<^sup>2)) * ((1 - 1 / 2 ^ 40) * (1 - 1 / 2 ^ 53))
                 \<le> A * ((1 - 1 / 2 ^ 40) * (1 - 1 / 2 ^ 53))"
      by (rule mult_right_mono) simp
    moreover have "P * (1 + 1 / 2 ^ 40) \<le>
        (P + (1 / 10 ^ 9 - (1 / 10 ^ 9)\<^sup>2)) * ((1 - 1 / 2 ^ 40) * (1 - 1 / 2 ^ 53))"
      using P80 P0 by (simp add: power2_eq_square algebra_simps)
    ultimately show ?thesis by linarith
  qed
  have "real i * (c * (1 + 1 / 2 ^ 40)) \<le> A * (1 - 1 / 2 ^ 40) * (1 - 1 / 2 ^ 53)"
    using key1 by (simp add: P_def mult.assoc)
  then have "real i \<le> A * (1 - 1 / 2 ^ 40) * (1 - 1 / 2 ^ 53) / (c * (1 + 1 / 2 ^ 40))"
    using c(1) by (subst pos_le_divide_eq) simp_all
  also have "\<dots> = A * (1 - 1 / 2 ^ 40) / (c * (1 + 1 / 2 ^ 40)) * (1 - 1 / 2 ^ 53)"
    by simp
  also have "\<dots> \<le> r * (1 - 1 / 2 ^ 53)"
    by (rule mult_right_mono[OF Q(3) u53])
  also have "\<dots> \<le> fl r" by (rule fl_rel_bounds(1)[OF r0])
  finally have lower: "real i \<le> fl r" .
  have "ln b \<le> ln (1024 ^ (i + 1) * (1 - 1 / 10 ^ 9))"
    using hi by (subst ln_le_cancel_iff) (simp_all add: b0)
  moreover have "ln (1024 ^ (i + 1) * (1 - 1 / 10 ^ 9)) = P + c + ln (1 - 1 / 10 ^ 9 :: real)"
  proof -
    have "ln (1024 ^ (i + 1) * (1 - 1 / 10 ^ 9) :: real) =
          ln (1024 ^ (i + 1)) + ln (1 - 1 / 10 ^ 9)"
      by (rule ln_mult_pos) simp_all
    also have "ln ((1024::real) ^ (i + 1)) = real (i + 1) * ln 1024"
      by (rule ln_power_1024)
    finally show ?thesis by (simp add: P_def c_def algebra_simps)
  qed
  moreover have "ln (1 - 1 / 10 ^ 9 :: real) \<le> - (1 / 10 ^ 9)"
    by (rule ln_one_minus_pos_upper_bound) simp_all
  ultimately have Ahi: "A \<le> P + c - 1 / 10 ^ 9" by (simp add: A_def)
  have key2: "A * ((1 + 1 / 2 ^ 40) * (1 + 1 / 2 ^ 53)) < (P + c) * (1 - 1 / 2 ^ 40)"
  proof -
    have "A * ((1 + 1 / 2 ^ 40) * (1 + 1 / 2 ^ 53)) \<le>
          (P + c - 1 / 10 ^ 9) * ((1 + 1 / 2 ^ 40) * (1 + 1 / 2 ^ 53))"
      using Ahi by (rule mult_right_mono) simp
    moreover have "(P + c - 1 / 10 ^ 9) * ((1 + 1 / 2 ^ 40) * (1 + 1 / 2 ^ 53)) <
          (P + c) * (1 - 1 / 2 ^ 40)"
      using P80 P0 c by (simp add: algebra_simps)
    ultimately show ?thesis by linarith
  qed
  have "fl r \<le> r * (1 + 1 / 2 ^ 53)" by (rule fl_rel_bounds(2)[OF r0])
  also have "\<dots> \<le> A * (1 + 1 / 2 ^ 40) / (c * (1 - 1 / 2 ^ 40)) * (1 + 1 / 2 ^ 53)"
    by (rule mult_right_mono[OF Q(4) v53])
  also have "\<dots> = A * ((1 + 1 / 2 ^ 40) * (1 + 1 / 2 ^ 53)) / (c * (1 - 1 / 2 ^ 40))"
    by simp
  also have "\<dots> < real i + 1"
  proof -
    have "A * ((1 + 1 / 2 ^ 40) * (1 + 1 / 2 ^ 53)) < (real i + 1) * (c * (1 - 1 / 2 ^ 40))"
      using key2 by (simp add: P_def algebra_simps)
    then show ?thesis using c(1) by (subst pos_divide_less_eq) simp_all
  qed
  finally have upper: "fl r < real i + 1" .
  have "\<lfloor>fl r\<rfloor> = int i"
    by (rule floor_unique) (use lower upper in simp_all)
  then show ?thesis by (simp add: unitIndex_def ddiv_def r_def)
qed



lemma ddiv_power_1024:
  assumes "fl b = b"
  shows "ddiv b (1024 powi j) = b / 1024 powi j"
proof -
  have "(1024::real) = 2 powi 10" by simp
  then have "(1024::real) powi j = 2 powi (10 * j)"
    by (simp only: power_int_mult)
  then have "b / 1024 powi j = b * 2 powi (- (10 * j))"
    by (simp add: power_int_minus divide_inverse)
  then show ?thesis using fl_scale[of b "- (10 * j)"] assms by (simp add: ddiv_def)
qed


lemma toFixedUnits_less:
  assumes "0 \<le> x" and "x < 1024"
  shows "toFixedUnits x 2 < 10 ^ 15"
proof -
  have "x * 10 ^ 2 + 1 / 2 < 102401" using assms by simp
  then have "\<lfloor>x * 10 ^ 2 + 1 / 2\<rfloor> < 102401" by linarith
  then have "nat \<lfloor>x * 10 ^ 2 + 1 / 2\<rfloor> < 102401" by linarith
  then have "toFixedUnits x 2 < 102401" unfolding toFixedUnits_def .
  also have "(102401::nat) < 10 ^ 15" by simp
  finally show ?thesis .
qed

lemma unitName_table: "i < 9 \<Longrightarrow> unitName (int i) = sizes ! i"
  by (simp add: unitName_def sizes_def)

lemma region_bounds:
  fixes b :: real
  assumes lo: "i = 0 \<and> 1 \<le> b \<or> 1024 ^ i * (1 + 1 / 10 ^ 9) \<le> b"
    and hi: "b \<le> 1024 ^ (i + 1) * (1 - 1 / 10 ^ 9)"
  shows "1024 ^ i \<le> b" and "b < 1024 ^ (i + 1)"
proof -
  have "(1024::real) ^ i * 1 \<le> 1024 ^ i * (1 + 1 / 10 ^ 9)"
    by (rule mult_left_mono) simp_all
  then have h: "(1024::real) ^ i \<le> 1024 ^ i * (1 + 1 / 10 ^ 9)" by (simp only: mult_1_right)
  show "1024 ^ i \<le> b"
  proof (cases "i = 0 \<and> 1 \<le> b")
    case True
    then show ?thesis by simp
  next
    case False
    with lo have "1024 ^ i * (1 + 1 / 10 ^ 9) \<le> b" by blast
    with h show ?thesis by (rule order_trans)
  qed
  have "(1024::real) ^ (i + 1) * (1 - 1 / 10 ^ 9) < 1024 ^ (i + 1) * 1"
    by (rule mult_strict_left_mono) simp_all
  then have "(1024::real) ^ (i + 1) * (1 - 1 / 10 ^ 9) < 1024 ^ (i + 1)"
    by (simp only: mult_1_right)
  with hi show "b < 1024 ^ (i + 1)" by (rule le_less_trans)
qed


lemma formatBytes_region:
  fixes mathLog :: "real \<Rightarrow> real" and b :: real and i :: nat
  assumes H: "\<And>x. 0 < x \<Longrightarrow> \<bar>mathLog x - ln x\<bar> \<le> \<bar>ln x\<bar> / 2 ^ 40"
    and d: "fl b = b"
    and i: "i \<le> 8"
    and lo: "i = 0 \<and> 1 \<le> b \<or> 1024 ^ i * (1 + 1 / 10 ^ 9) \<le> b"
    and hi: "b \<le> 1024 ^ (i + 1) * (1 - 1 / 10 ^ 9)"
  shows "formatBytes mathLog (Finite b) =
         Some (decimalString (toFixedUnits (b / 1024 ^ i) 2) 2 @ '' '' @ sizes ! i)"
proof -
  note B = region_bounds[OF lo hi]
  have p: "(0::real) < 1024 ^ i" by simp
  have b1: "1 \<le> b" using B(1) by (rule order_trans[rotated]) simp
  have ix: "unitIndex mathLog b = int i" by (rule unitIndex_region[OF H i lo hi])
  have x: "ddiv b (1024 ^ i) = b / 1024 ^ i"
    using ddiv_power_1024[OF d, of "int i"] by simp
  have "b / 1024 ^ i < 1024"
    using B(2) p by (simp add: pos_divide_less_eq)
  moreover have "0 \<le> b / 1024 ^ i" using b1 by simp
  ultimately have n: "toFixedUnits (b / 1024 ^ i) 2 < 10 ^ 15" by (rule toFixedUnits_less[rotated])
  have k: "mathLog 1024 \<noteq> 0" using log_quotient_bounds(1)[OF H b1] by simp
  have u: "unitName (int i) = sizes ! i" using i by (intro unitName_table) simp
  have t: "truthyNumber (Finite b)" "\<not> b < 0" using b1 by (simp_all add: truthyNumber_def)
  show ?thesis
    using t k n i by (simp add: formatBytes_def Let_def decimals_def ix x u)
qed


lemma formatBytes_NaN: "formatBytes mathLog NaN = Some ''0 Bytes''"
  by (simp add: formatBytes_def truthyNumber_def)



lemma formatBytes_2048:
  fixes mathLog :: "real \<Rightarrow> real"
  assumes H: "\<And>x. 0 < x \<Longrightarrow> \<bar>mathLog x - ln x\<bar> \<le> \<bar>ln x\<bar> / 2 ^ 40"
  shows "formatBytes mathLog (Finite 2048) = Some ''2 KB''"
proof -
  have "fl 2048 = 2048" using fl_of_int[of 2048] by simp
  from formatBytes_region[OF H this, of 1]
  have "formatBytes mathLog (Finite 2048) =
        Some (decimalString (toFixedUnits (2048 / 1024 ^ 1) 2) 2 @ '' '' @ sizes ! 1)"
    by simp
  then show ?thesis
    by (simp add: toFixedUnits_def decimalString_def showNat.simps digit_def
          stripTrailingZeros_def sizes_def)
qed

lemma roundedLn_accurate: "\<bar>roundedLn x - ln x\<bar> \<le> \<bar>ln x\<bar> / 2 ^ 40"
proof -
  have "\<bar>roundedLn x - ln x\<bar> \<le> \<bar>ln x\<bar> / 2 ^ 53"
    unfolding roundedLn_def by (rule fl_close)
  also have "\<dots> \<le> \<bar>ln x\<bar> / 2 ^ 40"
    by (rule divide_left_mono) simp_all
  finally show ?thesis .
qed

subsection \<open>safeValue\<close>

lemma safeValue_num:
  "safeValue mathLog numberToString (JNum n) =
     (if n = Finite 0 \<or> n = NaN then Some (JNum n) else Some (JStr (numberToString n)))"
  by (auto simp: safeValue.simps truthyNumber_def)

lemma safeValue_obj_dump:
  "\<not> (truthyProperty (map_of fs ''location'') \<and> truthyProperty (map_of fs ''size'')) \<Longrightarrow>
   safeValue mathLog numberToString (JObj fs) =
     Some (JStr (stringify numberToString (JObj fs)))"
  by (subst safeValue.simps) auto

lemma safeValue_obj_file:
  "map_of fs ''location'' = Some loc \<Longrightarrow> truthy loc \<Longrightarrow>
   map_of fs ''size'' = Some (JNum n) \<Longrightarrow> n \<noteq> Finite 0 \<Longrightarrow> n \<noteq> NaN \<Longrightarrow>
   safeValue mathLog numberToString (JObj fs) =
     map_option (\<lambda>formatted. JStr (toString numberToString loc @ '' ('' @ formatted @ '')''))
       (formatBytes mathLog n)"
  by (simp add: safeValue.simps truthyProperty_def truthyNumber_def)

lemma integerToString_examples:
  "integerToString (Finite 0) = ''0''" "integerToString (Finite 1) = ''1''"
  "integerToString (Finite 42) = ''42''" "integerToString (Finite (- 7)) = ''-7''"
  "integerToString NaN = ''NaN''" "integerToString PosInfinity = ''Infinity''"
  by (simp_all add: integerToString_def showNat.simps digit_def)

lemma safeValue_file_example:
  "safeValue roundedLn integerToString
     (JObj [(''location'', JStr ''gs://x''), (''size'', JNum (Finite 2048))]) =
   Some (JStr ''gs://x (2 KB)'')"
  by (simp add: safeValue_obj_file[of _ "JStr ''gs://x''" "Finite 2048"]
        formatBytes_2048[of roundedLn, OF roundedLn_accurate])

lemma safeValue_array_example:
  "safeValue roundedLn integerToString
     (JArr [JNum (Finite 1), JNull, JStr ''a'', JNum (Finite 0)]) =
   Some (JStr ''1, , a, 0'')"
  by (simp add: safeValue.simps joinValues_def truthyNumber_def integerToString_examples)

text \<open>
  The digits that \<open>showNat\<close> prints are the decimal representation: reading them gives
  the number back.
\<close>

lemma digitValue_digit: "d < 10 \<Longrightarrow> digitValue (digit d) = d"
proof -
  assume "d < 10"
  then have "d \<in> {0, 1, 2, 3, 4, 5, 6, 7, 8, 9}" by auto
  then show ?thesis by (auto simp: digitValue_def digit_def)
qed

lemma readNat_snoc: "readNat (s @ [c]) = 10 * readNat s + digitValue c"
  by (simp add: readNat_def)

lemma readNat_showNat: "readNat (showNat n) = n"
proof (induction n rule: showNat.induct)
  case (1 n)
  show ?case
  proof (cases "n < 10")
    case True
    then show ?thesis
      by (subst showNat.simps) (simp add: readNat_def digitValue_digit)
  next
    case False
    with 1 have "readNat (showNat (n div 10)) = n div 10" by simp
    with False show ?thesis
      by (subst showNat.simps) (simp add: readNat_snoc digitValue_digit)
  qed
qed

subsection \<open>External ids\<close>

lemma renderExternalIds_Some:
  "ids \<noteq> [] \<Longrightarrow>
   renderExternalIds (Some ids) =
     Some (joinWith '', '' (map (\<lambda>(code, ident). ident @ '' ('' @ code @ '')'') ids))"
  by (simp add: renderExternalIds_def orEmpty_def)

lemma spec_format_with_codes:
  assumes "\<forall>(code, ident)\<in>set ids. code \<noteq> []"
  shows "map (\<lambda>(code, ident). ident @ '' ('' @ code @ '')'') ids =
         map (\<lambda>(code, ident). if code = [] then ident else ident @ '' ('' @ code @ '')'') ids"
  using assms by (intro map_cong) auto

subsection \<open>The claims about the formatting\<close>



text \<open>
  Claim C8, as stated: external-id maps are formatted as \<open><id> (<code>)\<close> pairs joined by a
  comma and a space, and the parenthetical is left out when the code is the empty string.
  Neither function does both. \<open>renderSeqInfo\<close> keeps the parenthetical for an empty
  code, and \<open>formatExternalIds\<close> prints \<open><code>: <id>\<close>.
\<close>

theorem external_ids_counterexample:
  "renderExternalIds (Some [('''', ''X1'')]) = Some ''X1 ()'' \<and>
   specExternalIds [('''', ''X1'')] = ''X1'' \<and>
   renderExternalIds (Some [('''', ''X1'')]) \<noteq> Some (specExternalIds [('''', ''X1'')]) \<and>
   formatExternalIds id [(''kccg'', ''X1'')] = ''kccg: X1'' \<and>
   specExternalIds [(''kccg'', ''X1'')] = ''X1 (kccg)'' \<and>
   formatExternalIds id [(''kccg'', ''X1'')] \<noteq> specExternalIds [(''kccg'', ''X1'')]"
  by (simp add: renderExternalIds_def orEmpty_def formatExternalIds_def specExternalIds_def)

text \<open>
  Claim C8, amended. \<open>renderSeqInfo\<close> formats a non-empty external-id map whose codes
  are not empty as \<open><id> (<code>)\<close> pairs joined by a comma and a space, which is the
  stated format, and renders nothing for a missing or empty map. \<open>formatExternalIds\<close>
  formats a map as \<open><code>: <id>\<close> pairs joined by a comma and a space, and shows the
  sanitised id alone for an empty code.
\<close>

theorem external_ids_formats:
  "(ids \<noteq> [] \<and> (\<forall>(code, ident)\<in>set ids. code \<noteq> []) \<longrightarrow>
      renderExternalIds (Some ids) =
        Some (joinWith '', '' (map (\<lambda>(code, ident). ident @ '' ('' @ code @ '')'') ids)) \<and>
      renderExternalIds (Some ids) = Some (specExternalIds ids)) \<and>
   renderExternalIds (Some []) = None \<and> renderExternalIds None = None \<and>
   formatExternalIds sanitiseValue ids =
     joinWith '', '' (map (\<lambda>(code, ident). if code = [] then sanitiseValue ident
                                            else code @ '': '' @ ident) ids)"
proof (intro conjI impI)
  assume a: "ids \<noteq> [] \<and> (\<forall>(code, ident)\<in>set ids. code \<noteq> [])"
  then have ne: "ids \<noteq> []" and codes: "\<forall>(code, ident)\<in>set ids. code \<noteq> []"
    by simp_all
  show "renderExternalIds (Some ids) =
        Some (joinWith '', '' (map (\<lambda>(code, ident). ident @ '' ('' @ code @ '')'') ids))"
    using ne by (rule renderExternalIds_Some)
  show "renderExternalIds (Some ids) = Some (specExternalIds ids)"
    unfolding renderExternalIds_Some[OF ne] specExternalIds_def
    by (simp only: spec_format_with_codes[OF codes])
next
  show "renderExternalIds (Some []) = None" by (simp add: renderExternalIds_def orEmpty_def)
  show "renderExternalIds None = None" by (simp add: renderExternalIds_def orEmpty_def)
  show "formatExternalIds sanitiseValue ids =
     joinWith '', '' (map (\<lambda>(code, ident). if code = [] then sanitiseValue ident
                                            else code @ '': '' @ ident) ids)"
    by (simp add: formatExternalIds_def)
qed

theorem external_ids_formats_witness:
  "[(''kccg'', ''X1''), (''garvan'', ''X2'')] \<noteq> [] \<and> ''kccg'' \<noteq> [] \<and> ''garvan'' \<noteq> [] \<and>
   renderExternalIds (Some [(''kccg'', ''X1''), (''garvan'', ''X2'')]) =
     Some ''X1 (kccg), X2 (garvan)'' \<and>
   specExternalIds [(''kccg'', ''X1''), (''garvan'', ''X2'')] = ''X1 (kccg), X2 (garvan)'' \<and>
   formatExternalIds id [('''', ''X1''), (''garvan'', ''X2'')] = ''X1, garvan: X2''"
proof -
  have a: "[(''kccg'', ''X1''), (''garvan'', ''X2'')] \<noteq> [] \<and>
           (\<forall>(code, ident)\<in>set [(''kccg'', ''X1''), (''garvan'', ''X2'')]. code \<noteq> [])"
    by simp
  with external_ids_formats[of "[(''kccg'', ''X1''), (''garvan'', ''X2'')]" id]
  have "renderExternalIds (Some [(''kccg'', ''X1''), (''garvan'', ''X2'')]) =
        Some (specExternalIds [(''kccg'', ''X1''), (''garvan'', ''X2'')])"
    by blast
  moreover have "specExternalIds [(''kccg'', ''X1''), (''garvan'', ''X2'')] =
                 ''X1 (kccg), X2 (garvan)''"
    by (simp add: specExternalIds_def)
  moreover have "formatExternalIds id [('''', ''X1''), (''garvan'', ''X2'')] = ''X1, garvan: X2''"
    using external_ids_formats[of "[('''', ''X1''), (''garvan'', ''X2'')]" id] by simp
  ultimately show ?thesis using a by simp
qed

text \<open>
  Claim C9, as stated: for every number \<open>safeValue\<close> returns the number's decimal string.
  The numbers 0 and \<open>NaN\<close> are falsy and leave through the first test of the function,
  unchanged: the result is the number 0, not the string \<open>0\<close>, and the number \<open>NaN\<close>.
\<close>

theorem safeValue_zero_counterexample:
  "safeValue roundedLn integerToString (JNum (Finite 0)) = Some (JNum (Finite 0)) \<and>
   integerToString (Finite 0) = ''0'' \<and>
   safeValue roundedLn integerToString (JNum (Finite 0)) \<noteq> Some (JStr ''0'') \<and>
   safeValue roundedLn integerToString (JNum NaN) = Some (JNum NaN) \<and>
   integerToString NaN = ''NaN'' \<and>
   safeValue roundedLn integerToString (JNum NaN) \<noteq> Some (JStr ''NaN'')"
  by (simp add: safeValue_num integerToString_examples)

text \<open>
  Claim C9, amended. For every number other than 0 and \<open>NaN\<close>, an integer or not, and
  the infinities included, \<open>safeValue\<close> returns the string that \<open>toString()\<close> gives for the
  number; the numbers 0 and \<open>NaN\<close> are returned as they are. This holds whatever
  \<open>Number.prototype.toString\<close> and \<open>Math.log\<close> are.
\<close>

theorem safeValue_number:
  "(n \<noteq> Finite 0 \<and> n \<noteq> NaN \<longrightarrow>
      safeValue mathLog numberToString (JNum n) = Some (JStr (numberToString n))) \<and>
   safeValue mathLog numberToString (JNum (Finite 0)) = Some (JNum (Finite 0)) \<and>
   safeValue mathLog numberToString (JNum NaN) = Some (JNum NaN)"
  by (simp add: safeValue_num)

theorem safeValue_number_witness:
  "Finite 42 \<noteq> Finite 0 \<and> Finite 42 \<noteq> NaN \<and>
   safeValue roundedLn integerToString (JNum (Finite 42)) = Some (JStr ''42'') \<and>
   safeValue roundedLn integerToString (JNum (Finite (- 7))) = Some (JStr ''-7'') \<and>
   safeValue roundedLn integerToString (JNum PosInfinity) = Some (JStr ''Infinity'')"
  using safeValue_number[of "Finite 42" roundedLn integerToString]
    safeValue_number[of "Finite (- 7)" roundedLn integerToString]
    safeValue_number[of PosInfinity roundedLn integerToString]
  by (simp add: integerToString_examples)

text \<open>
  Claim C10. \<open>safeValue\<close> renders an object as a file, \<open><location> (<formatted size>)\<close>,
  only when its \<open>location\<close> and its \<open>size\<close> are both truthy. An object that has a location
  and whose size is 0, missing or falsy in another way is rendered as its JSON text, as is
  every object for which one of the two properties is not truthy.
\<close>

theorem safeValue_file_needs_size:
  "(map_of fs ''location'' = Some loc \<and> \<not> truthyProperty (map_of fs ''size'') \<longrightarrow>
      safeValue mathLog numberToString (JObj fs) =
        Some (JStr (stringify numberToString (JObj fs)))) \<and>
   (\<not> (truthyProperty (map_of fs ''location'') \<and> truthyProperty (map_of fs ''size'')) \<longrightarrow>
      safeValue mathLog numberToString (JObj fs) =
        Some (JStr (stringify numberToString (JObj fs)))) \<and>
   (map_of fs ''location'' = Some loc \<and> truthy loc \<and>
    map_of fs ''size'' = Some (JNum n) \<and> n \<noteq> Finite 0 \<and> n \<noteq> NaN \<longrightarrow>
      safeValue mathLog numberToString (JObj fs) =
        map_option
          (\<lambda>formatted. JStr (toString numberToString loc @ '' ('' @ formatted @ '')''))
          (formatBytes mathLog n))"
proof (intro conjI impI)
  assume "map_of fs ''location'' = Some loc \<and> \<not> truthyProperty (map_of fs ''size'')"
  then have "\<not> (truthyProperty (map_of fs ''location'') \<and> truthyProperty (map_of fs ''size''))"
    by simp
  then show "safeValue mathLog numberToString (JObj fs) =
             Some (JStr (stringify numberToString (JObj fs)))"
    by (rule safeValue_obj_dump)
next
  assume "\<not> (truthyProperty (map_of fs ''location'') \<and> truthyProperty (map_of fs ''size''))"
  then show "safeValue mathLog numberToString (JObj fs) =
             Some (JStr (stringify numberToString (JObj fs)))"
    by (rule safeValue_obj_dump)
next
  assume "map_of fs ''location'' = Some loc \<and> truthy loc \<and>
          map_of fs ''size'' = Some (JNum n) \<and> n \<noteq> Finite 0 \<and> n \<noteq> NaN"
  then show "safeValue mathLog numberToString (JObj fs) =
        map_option
          (\<lambda>formatted. JStr (toString numberToString loc @ '' ('' @ formatted @ '')''))
          (formatBytes mathLog n)"
    by (simp add: safeValue_obj_file)
qed

theorem safeValue_file_needs_size_witness:
  "map_of [(''location'', JStr ''gs://x''), (''size'', JNum (Finite 0))] ''location'' =
     Some (JStr ''gs://x'') \<and>
   \<not> truthyProperty
       (map_of [(''location'', JStr ''gs://x''), (''size'', JNum (Finite 0))] ''size'') \<and>
   safeValue roundedLn integerToString
       (JObj [(''location'', JStr ''gs://x''), (''size'', JNum (Finite 0))]) =
     Some (JStr ''{\"location\":\"gs://x\",\"size\":0}'') \<and>
   safeValue roundedLn integerToString (JObj [(''location'', JStr ''gs://x'')]) =
     Some (JStr ''{\"location\":\"gs://x\"}'') \<and>
   safeValue roundedLn integerToString
       (JObj [(''location'', JStr ''gs://x''), (''size'', JNum (Finite 2048))]) =
     Some (JStr ''gs://x (2 KB)'')"
proof -
  let ?zero = "[(''location'', JStr ''gs://x''), (''size'', JNum (Finite 0))]"
  let ?none = "[(''location'', JStr ''gs://x'')]"
  let ?file = "[(''location'', JStr ''gs://x''), (''size'', JNum (Finite 2048))]"
  have h: "map_of ?zero ''location'' = Some (JStr ''gs://x'') \<and>
           \<not> truthyProperty (map_of ?zero ''size'')"
    by (simp add: truthyProperty_def truthyNumber_def)
  with safeValue_file_needs_size[of ?zero "JStr ''gs://x''" roundedLn integerToString "Finite 0"]
  have "safeValue roundedLn integerToString (JObj ?zero) =
        Some (JStr (stringify integerToString (JObj ?zero)))" by blast
  then have z: "safeValue roundedLn integerToString (JObj ?zero) =
                Some (JStr ''{\"location\":\"gs://x\",\"size\":0}'')"
    by (simp add: quote_def escapeChar_def stringifyNumber_def integerToString_examples)
  have "map_of ?none ''location'' = Some (JStr ''gs://x'') \<and>
        \<not> truthyProperty (map_of ?none ''size'')"
    by (simp add: truthyProperty_def)
  with safeValue_file_needs_size[of ?none "JStr ''gs://x''" roundedLn integerToString "Finite 0"]
  have "safeValue roundedLn integerToString (JObj ?none) =
        Some (JStr (stringify integerToString (JObj ?none)))" by blast
  then have n: "safeValue roundedLn integerToString (JObj ?none) =
                Some (JStr ''{\"location\":\"gs://x\"}'')"
    by (simp add: quote_def escapeChar_def)
  have "map_of ?file ''location'' = Some (JStr ''gs://x'') \<and> truthy (JStr ''gs://x'') \<and>
        map_of ?file ''size'' = Some (JNum (Finite 2048)) \<and> Finite 2048 \<noteq> Finite 0 \<and>
        Finite 2048 \<noteq> NaN"
    by simp
  with safeValue_file_needs_size[of ?file "JStr ''gs://x''" roundedLn integerToString
         "Finite 2048"]
  have "safeValue roundedLn integerToString (JObj ?file) =
        map_option
          (\<lambda>formatted. JStr (toString integerToString (JStr ''gs://x'') @ '' ('' @ formatted @ '')''))
          (formatBytes roundedLn (Finite 2048))" by blast
  then have f: "safeValue roundedLn integerToString (JObj ?file) = Some (JStr ''gs://x (2 KB)'')"
    by (simp add: formatBytes_2048[of roundedLn, OF roundedLn_accurate])
  from h z n f show ?thesis by blast
qed

end
